theory Spec2Isabelle
  imports Complex_Main
begin

section \<open>Python values\<close>

text \<open>
  A Python \<open>str\<close> is a sequence of Unicode code points; \<open>len\<close> and iteration count code
  points, so a string is modelled as the list of its code points. String literals of the
  source are written \<open>str ''...''\<close>.
\<close>

type_synonym pystr = "nat list"

definition str :: "string \<Rightarrow> pystr" where
  "str s = map of_char s"

text \<open>
  Python floats are modelled as real numbers: the claims below depend only on comparisons,
  \<open>max\<close> and the value of decimal literals, not on rounding (no NaN, no infinities).
\<close>

section \<open>typer\_engine.py\<close>

subsection \<open>Engine state and speed\<close>

text \<open>
  The attributes of \<open>TyperEngine\<close>; \<open>stop_flag\<close> is the \<open>threading.Event\<close> held in
  \<open>self._stop\<close> (set = \<open>True\<close>).
\<close>

record engine =
  base_delay :: real
  humanize :: bool
  is_typing :: bool
  stop_flag :: bool

definition SPEED_PRESETS :: "(pystr \<times> real) list" where
  "SPEED_PRESETS =
     [(str ''Slow'', 0.065),
      (str ''Normal'', 0.040),
      (str ''Fast'', 0.022),
      (str ''Very Fast'', 0.010)]"

text \<open>\<open>dict.get(key, default)\<close> on a dictionary given as an association list.\<close>

definition dict_get :: "('k \<times> 'v) list \<Rightarrow> 'k \<Rightarrow> 'v \<Rightarrow> 'v" where
  "dict_get d k dflt = (case map_of d k of None \<Rightarrow> dflt | Some v \<Rightarrow> v)"

text \<open>\<open>TyperEngine.__init__\<close>: \<open>base_delay = SPEED_PRESETS["Fast"]\<close>.\<close>

definition engine_init :: engine where
  "engine_init =
     \<lparr>base_delay = the (map_of SPEED_PRESETS (str ''Fast'')),
      humanize = True, is_typing = False, stop_flag = False\<rparr>"

definition set_speed :: "pystr \<Rightarrow> engine \<Rightarrow> engine" where
  "set_speed preset_name e = e\<lparr>base_delay := dict_get SPEED_PRESETS preset_name 0.022\<rparr>"

definition set_speed_value :: "real \<Rightarrow> engine \<Rightarrow> engine" where
  "set_speed_value delay e = e\<lparr>base_delay := max 0.003 delay\<rparr>"

text \<open>\<open>stop()\<close>: \<open>self._stop.set()\<close>, then \<open>self.is_typing = False\<close>.\<close>

definition stop_set :: "engine \<Rightarrow> engine" where
  "stop_set e = e\<lparr>stop_flag := True\<rparr>"

definition stop_clear_typing :: "engine \<Rightarrow> engine" where
  "stop_clear_typing e = e\<lparr>is_typing := False\<rparr>"

definition stop :: "engine \<Rightarrow> engine" where
  "stop e = stop_clear_typing (stop_set e)"


subsection \<open>Keystroke delay\<close>

text \<open>
  \<open>random.uniform(a, b)\<close> of the standard library is \<open>a + (b - a) * random()\<close>, where
  \<open>random()\<close> lies in \<open>[0, 1)\<close>; the draw \<open>u\<close> is supplied by the environment.
\<close>

definition uniform :: "real \<Rightarrow> real \<Rightarrow> real \<Rightarrow> real" where
  "uniform a b u = a + (b - a) * u"

text \<open>The characters of the literal \<open>" .,!?;:\n"\<close> (line 97).\<close>

definition pause_chars :: pystr where
  "pause_chars = str ('' .,!?;:'' @ [CHR 0x0A])"

text \<open>Lines 94--101: the delay slept after typing \<open>char\<close>, for the random draw \<open>u\<close>.\<close>

definition keystroke_delay :: "engine \<Rightarrow> nat \<Rightarrow> real \<Rightarrow> real" where
  "keystroke_delay e char u =
     (let delay = base_delay e in
      if humanize e then
        (let delay = (if char \<in> set pause_chars
                      then delay + uniform 0.01 0.05 u
                      else delay + uniform (- 0.008) 0.015 u)
         in max 0.003 delay)
      else delay)"

subsection \<open>The worker thread of \<open>type_text\<close>\<close>

datatype key = Enter | CapsLock | F nat | KeyCode nat

text \<open>
  What the worker does to the outside world, in order: a completed \<open>time.sleep\<close>, a key
  press or release through the pynput controller, a completed \<open>controller.type(char)\<close>,
  and the invocation of a callback.
\<close>

datatype event =
    Sleep real
  | Press key
  | Release key
  | TypeChar nat
  | OnChar nat nat
  | OnDone

text \<open>
  Program points of \<open>_worker\<close>, named by the line of \<open>typer_engine.py\<close> that executes
  next (\<open>L21\<close>--\<open>L23\<close> are the body of \<open>_disable_caps_lock\<close>); \<open>Exited\<close> is the finished
  thread.
\<close>

datatype pc =
    L78 | L81 | L21 | L22 | L23
  | L83 | L84 | L88 | L90 | L94
  | L106 | L107 | L108 | L109
  | L111 | L112 | Exited

text \<open>The variables closed over by \<open>_worker\<close>: the arguments of \<open>type_text\<close>
  (for the callbacks, whether one was given).\<close>

record session =
  s_text :: pystr
  s_press_enter :: bool
  s_delay_before :: real
  s_on_char :: bool
  s_on_done :: bool

text \<open>
  What the worker cannot control: whether Caps Lock is on, the value \<open>random()\<close> returns
  for the character of index \<open>i\<close>, and whether the external call made at a program point
  (for the character of index \<open>i\<close>) raises.
\<close>

record env =
  caps_lock_on :: bool
  random_draw :: "nat \<Rightarrow> real"
  raises :: "pc \<Rightarrow> nat \<Rightarrow> bool"

text \<open>
  The local state of the worker: program point, the rest of the iterator
  \<open>enumerate(text)\<close> with its counter, the loop variables \<open>i\<close> and \<open>char\<close>, the events
  so far, and whether an exception is propagating out of the \<open>try\<close> block.
\<close>

record wstate =
  w_pc :: pc
  w_iter :: pystr
  w_count :: nat
  w_i :: nat
  w_char :: nat
  w_trace :: "event list"
  w_failed :: bool

definition emit :: "event \<Rightarrow> wstate \<Rightarrow> wstate" where
  "emit ev w = w\<lparr>w_trace := w_trace w @ [ev]\<rparr>"

definition goto :: "pc \<Rightarrow> wstate \<Rightarrow> wstate" where
  "goto p w = w\<lparr>w_pc := p\<rparr>"

text \<open>An exception inside \<open>try\<close> transfers control to the \<open>finally\<close> clause.\<close>

definition raise_exn :: "wstate \<Rightarrow> wstate" where
  "raise_exn w = w\<lparr>w_pc := L111, w_failed := True\<rparr>"

text \<open>\<open>time.sleep(d)\<close> raises \<open>ValueError\<close> for a negative \<open>d\<close>.\<close>

definition sleep :: "env \<Rightarrow> real \<Rightarrow> pc \<Rightarrow> wstate \<Rightarrow> wstate" where
  "sleep en d next w =
     (if d < 0 \<or> raises en (w_pc w) (w_i w) then raise_exn w
      else goto next (emit (Sleep d) w))"

text \<open>A call of the pynput controller: the event happens unless the call raises.\<close>

definition control :: "env \<Rightarrow> event \<Rightarrow> pc \<Rightarrow> wstate \<Rightarrow> wstate" where
  "control en ev next w =
     (if raises en (w_pc w) (w_i w) then raise_exn w
      else goto next (emit ev w))"

text \<open>One atomic step of the worker on the shared engine state.\<close>

definition worker_step :: "env \<Rightarrow> session \<Rightarrow> engine \<times> wstate \<Rightarrow> engine \<times> wstate" where
  "worker_step en ses = (\<lambda>(e, w).
     case w_pc w of
       L78 \<Rightarrow> (e, sleep en (s_delay_before ses) L81 w)
     | L81 \<Rightarrow> (e, if caps_lock_on en then goto L21 w else goto L83 w)
     | L21 \<Rightarrow> (e, if raises en L21 (w_i w) then raise_exn w else goto L22 w)
     | L22 \<Rightarrow> (e, control en (Press CapsLock) L23 w)
     | L23 \<Rightarrow> (e, control en (Release CapsLock) L83 w)
     | L83 \<Rightarrow> (e, case w_iter w of
                     [] \<Rightarrow> goto L106 w
                   | c # cs \<Rightarrow> w\<lparr>w_pc := L84, w_iter := cs, w_count := Suc (w_count w),
                                 w_i := w_count w, w_char := c\<rparr>)
     | L84 \<Rightarrow> (e, if stop_flag e then goto L106 w else goto L88 w)
     | L88 \<Rightarrow> (e, control en (TypeChar (w_char w)) L90 w)
     | L90 \<Rightarrow> (e, if s_on_char ses
                   then (let w' = emit (OnChar (w_i w) (w_char w)) w
                         in if raises en L90 (w_i w) then raise_exn w' else goto L94 w')
                   else goto L94 w)
     | L94 \<Rightarrow> (e, sleep en (keystroke_delay e (w_char w) (random_draw en (w_i w))) L83 w)
     | L106 \<Rightarrow> (e, if s_press_enter ses \<and> \<not> stop_flag e then goto L107 w else goto L111 w)
     | L107 \<Rightarrow> (e, sleep en 0.08 L108 w)
     | L108 \<Rightarrow> (e, control en (Press Enter) L109 w)
     | L109 \<Rightarrow> (e, control en (Release Enter) L111 w)
     | L111 \<Rightarrow> (e\<lparr>is_typing := False\<rparr>, goto L112 w)
     | L112 \<Rightarrow> (e, if s_on_done ses then goto Exited (emit OnDone w) else goto Exited w)
     | Exited \<Rightarrow> (e, w))"

text \<open>
  \<open>type_text\<close>: clears the stop signal, sets \<open>is_typing\<close>, and starts the worker thread.
  An omitted \<open>press_enter\<close> or \<open>delay_before\<close> is \<open>None\<close> and takes the default of the
  signature. The result is the engine state and the started thread.
\<close>

definition worker_init :: "session \<Rightarrow> wstate" where
  "worker_init ses =
     \<lparr>w_pc = L78, w_iter = s_text ses, w_count = 0, w_i = 0, w_char = 0,
      w_trace = [], w_failed = False\<rparr>"

text \<open>Lines 72--73: \<open>self._stop.clear()\<close> and \<open>self.is_typing = True\<close>.\<close>

definition begin_typing :: "engine \<Rightarrow> engine" where
  "begin_typing e = e\<lparr>stop_flag := False, is_typing := True\<rparr>"

definition type_text ::
  "engine \<Rightarrow> pystr \<Rightarrow> bool option \<Rightarrow> real option \<Rightarrow> bool \<Rightarrow> bool \<Rightarrow> engine \<times> session" where
  "type_text e text press_enter delay_before on_char on_done =
     (begin_typing e,
      \<lparr>s_text = text,
       s_press_enter = (case press_enter of None \<Rightarrow> True | Some b \<Rightarrow> b),
       s_delay_before = (case delay_before of None \<Rightarrow> 0.3 | Some d \<Rightarrow> d),
       s_on_char = on_char,
       s_on_done = on_done\<rparr>)"

definition start :: "engine \<times> session \<Rightarrow> engine \<times> wstate" where
  "start = (\<lambda>(e, ses). (e, worker_init ses))"

text \<open>
  The worker runs concurrently with the thread that called \<open>type_text\<close>. A schedule is the
  order in which atomic actions happen: a step of the worker, or one of the two statements
  of \<open>stop()\<close> executed by the caller.
\<close>

datatype action = Worker | StopSet | StopClear

fun act :: "env \<Rightarrow> session \<Rightarrow> action \<Rightarrow> engine \<times> wstate \<Rightarrow> engine \<times> wstate" where
  "act en ses Worker c = worker_step en ses c"
| "act en ses StopSet (e, w) = (stop_set e, w)"
| "act en ses StopClear (e, w) = (stop_clear_typing e, w)"

definition run :: "env \<Rightarrow> session \<Rightarrow> action list \<Rightarrow> engine \<times> wstate \<Rightarrow> engine \<times> wstate" where
  "run en ses sched c = fold (act en ses) sched c"

text \<open>
  A later call of \<open>type_text\<close> on the same engine, made while the worker of an earlier
  session is still alive: lines 72--73 act on the engine state that the earlier worker
  shares, and the earlier worker stays where it is. The thread that the later call starts
  is not followed.
\<close>

definition type_text_again ::
  "pystr \<Rightarrow> bool option \<Rightarrow> real option \<Rightarrow> bool \<Rightarrow> bool \<Rightarrow> engine \<times> wstate \<Rightarrow> engine \<times> wstate" where
  "type_text_again text press_enter delay_before on_char on_done =
     (\<lambda>(e, w). (fst (type_text e text press_enter delay_before on_char on_done), w))"

text \<open>An environment in which Caps Lock is off, every draw is 0.5 and no call fails.\<close>

definition quiet_env :: env where
  "quiet_env = \<lparr>caps_lock_on = False, random_draw = (\<lambda>i. 1 / 2), raises = (\<lambda>p i. False)\<rparr>"

text \<open>A call that types "abc" followed by Enter, on a new engine.\<close>

definition abc_call :: "engine \<times> session" where
  "abc_call = type_text engine_init (str ''abc'') (Some True) (Some 0) False False"

text \<open>Observations on a trace.\<close>

definition typed_chars :: "event list \<Rightarrow> pystr" where
  "typed_chars t = concat (map (\<lambda>ev. case ev of TypeChar c \<Rightarrow> [c] | _ \<Rightarrow> []) t)"

definition enter_events :: "event list \<Rightarrow> event list" where
  "enter_events t = filter (\<lambda>ev. ev = Press Enter \<or> ev = Release Enter) t"

definition on_done_calls :: "event list \<Rightarrow> nat" where
  "on_done_calls t = length (filter (\<lambda>ev. ev = OnDone) t)"

subsection \<open>Measures and invariants of the worker\<close>

text \<open>
  An upper bound on the number of steps the worker still takes: five per character left in
  the iterator, and the position in the straight-line code around the loop.
\<close>

definition fuel :: "wstate \<Rightarrow> nat" where
  "fuel w = (case w_pc w of
       L78 \<Rightarrow> 12 + 5 * length (w_iter w)
     | L81 \<Rightarrow> 11 + 5 * length (w_iter w)
     | L21 \<Rightarrow> 10 + 5 * length (w_iter w)
     | L22 \<Rightarrow> 9 + 5 * length (w_iter w)
     | L23 \<Rightarrow> 8 + 5 * length (w_iter w)
     | L83 \<Rightarrow> 7 + 5 * length (w_iter w)
     | L84 \<Rightarrow> 11 + 5 * length (w_iter w)
     | L88 \<Rightarrow> 10 + 5 * length (w_iter w)
     | L90 \<Rightarrow> 9 + 5 * length (w_iter w)
     | L94 \<Rightarrow> 8 + 5 * length (w_iter w)
     | L106 \<Rightarrow> 6 | L107 \<Rightarrow> 5 | L108 \<Rightarrow> 4 | L109 \<Rightarrow> 3
     | L111 \<Rightarrow> 2 | L112 \<Rightarrow> 1 | Exited \<Rightarrow> 0)"

text \<open>The number of worker steps in a schedule.\<close>

definition workers :: "action list \<Rightarrow> nat" where
  "workers sched = length (filter (\<lambda>a. a = Worker) sched)"

text \<open>
  Finalisation: \<open>is_typing\<close> is false once line 111 has run, and \<open>on_done\<close> has been called
  exactly when the thread has exited (and a callback was given), as the last event.
\<close>

definition fin_inv :: "session \<Rightarrow> engine \<times> wstate \<Rightarrow> bool" where
  "fin_inv ses = (\<lambda>(e, w).
     (w_pc w \<in> {L112, Exited} \<longrightarrow> \<not> is_typing e)
     \<and> on_done_calls (w_trace w) = (if w_pc w = Exited \<and> s_on_done ses then 1 else 0)
     \<and> (w_pc w = Exited \<and> s_on_done ses \<longrightarrow> (\<exists>t. w_trace w = t @ [OnDone])))"

text \<open>
  The characters not typed yet while the worker is before line 106: the rest of the
  iterator, and the current character when it has been fetched but not typed.
\<close>

definition pending :: "wstate \<Rightarrow> pystr" where
  "pending w = (if w_pc w = L84 \<or> w_pc w = L88 then w_char w # w_iter w else w_iter w)"

fun before_L106 :: "pc \<Rightarrow> bool" where
  "before_L106 L78 = True" | "before_L106 L81 = True" | "before_L106 L21 = True"
| "before_L106 L22 = True" | "before_L106 L23 = True" | "before_L106 L83 = True"
| "before_L106 L84 = True" | "before_L106 L88 = True" | "before_L106 L90 = True"
| "before_L106 L94 = True" | "before_L106 _ = False"

definition loop_inv :: "session \<Rightarrow> engine \<times> wstate \<Rightarrow> bool" where
  "loop_inv ses = (\<lambda>(e, w).
     before_L106 (w_pc w) \<longrightarrow> s_text ses = typed_chars (w_trace w) @ pending w)"

text \<open>The typed characters are always a prefix of the text.\<close>

definition prefix_inv :: "session \<Rightarrow> engine \<times> wstate \<Rightarrow> bool" where
  "prefix_inv ses = (\<lambda>(e, w).
     take (length (typed_chars (w_trace w))) (s_text ses) = typed_chars (w_trace w))"

text \<open>
  The trailing Enter: no Enter event before line 108 has run; and as long as the stop signal
  is not set, the worker is at lines 106--109, or has emitted an Enter event, only after
  typing the whole text.
\<close>

fun at_enter :: "pc \<Rightarrow> bool" where
  "at_enter L106 = True" | "at_enter L107 = True" | "at_enter L108 = True"
| "at_enter L109 = True" | "at_enter _ = False"

fun enter_pending :: "pc \<Rightarrow> bool" where
  "enter_pending L107 = True" | "enter_pending L108 = True"
| "enter_pending L109 = True" | "enter_pending _ = False"

fun enter_not_yet :: "pc \<Rightarrow> bool" where
  "enter_not_yet L109 = False" | "enter_not_yet L111 = False" | "enter_not_yet L112 = False"
| "enter_not_yet Exited = False" | "enter_not_yet _ = True"

definition complete_inv :: "session \<Rightarrow> engine \<times> wstate \<Rightarrow> bool" where
  "complete_inv ses = (\<lambda>(e, w).
     (enter_not_yet (w_pc w) \<longrightarrow> enter_events (w_trace w) = [])
     \<and> (\<not> stop_flag e \<longrightarrow> at_enter (w_pc w) \<longrightarrow> typed_chars (w_trace w) = s_text ses)
     \<and> (\<not> stop_flag e \<longrightarrow> enter_events (w_trace w) \<noteq> [] \<longrightarrow> typed_chars (w_trace w) = s_text ses))"

text \<open>
  After the stop signal was set with \<open>N\<close> characters typed and more to come: no Enter event,
  and at most one further character, the one whose check at line 84 had already passed.
\<close>

definition stopped_inv :: "nat \<Rightarrow> engine \<times> wstate \<Rightarrow> bool" where
  "stopped_inv N = (\<lambda>(e, w).
     stop_flag e \<and> enter_events (w_trace w) = [] \<and> \<not> enter_pending (w_pc w)
     \<and> N \<le> length (typed_chars (w_trace w)) \<and> length (typed_chars (w_trace w)) \<le> Suc N
     \<and> (w_pc w = L88 \<longrightarrow> length (typed_chars (w_trace w)) = N))"

subsection \<open>The events an uncancelled session is expected to produce\<close>

text \<open>
  Following section 4.1 of the specification: for each character, in order, one
  character event, the \<open>on_char\<close> callback if provided, and the inter-keystroke sleep.
\<close>

fun char_events :: "engine \<Rightarrow> env \<Rightarrow> session \<Rightarrow> nat \<Rightarrow> pystr \<Rightarrow> event list" where
  "char_events e en ses k [] = []"
| "char_events e en ses k (c # cs) =
     [TypeChar c] @ (if s_on_char ses then [OnChar k c] else [])
     @ [Sleep (keystroke_delay e c (random_draw en k))]
     @ char_events e en ses (Suc k) cs"

text \<open>
  The whole session: the initial pause, Caps Lock turned off if it is on, the characters,
  the trailing Enter if requested, and the completion callback if provided.
\<close>

definition expected_trace :: "engine \<Rightarrow> env \<Rightarrow> session \<Rightarrow> event list" where
  "expected_trace e en ses =
     [Sleep (s_delay_before ses)]
     @ (if caps_lock_on en then [Press CapsLock, Release CapsLock] else [])
     @ char_events e en ses 0 (s_text ses)
     @ (if s_press_enter ses then [Sleep 0.08, Press Enter, Release Enter] else [])
     @ (if s_on_done ses then [OnDone] else [])"

text \<open>
  The time slept between consecutive character events of a trace (\<open>acc\<close> is the time slept
  since the last character event, \<open>None\<close> before the first one).
\<close>

fun gaps :: "real option \<Rightarrow> event list \<Rightarrow> real list" where
  "gaps acc [] = []"
| "gaps acc (TypeChar c # t) = (case acc of None \<Rightarrow> [] | Some d \<Rightarrow> [d]) @ gaps (Some 0) t"
| "gaps acc (Sleep d # t) = gaps (map_option (\<lambda>a. a + d) acc) t"
| "gaps acc (ev # t) = gaps acc t"

subsection \<open>Engine states reachable through the API\<close>

text \<open>
  The engine states that arise from the constructor by the engine's own methods, by the
  \<open>humanize\<close> switch, and by the steps of its worker threads.
\<close>

inductive api_state :: "engine \<Rightarrow> bool" where
  init: "api_state engine_init"
| speed: "api_state e \<Longrightarrow> api_state (set_speed preset_name e)"
| speed_value: "api_state e \<Longrightarrow> api_state (set_speed_value delay e)"
| toggled: "api_state e \<Longrightarrow> api_state (e\<lparr>humanize := b\<rparr>)"
| typing: "api_state e \<Longrightarrow> api_state (fst (type_text e text press_enter delay_before on_char on_done))"
| acted: "api_state e \<Longrightarrow> api_state (fst (act en ses a (e, w)))"

section \<open>models.py\<close>

text \<open>
  The values a Python attribute can hold after \<open>json.load\<close>: \<open>None\<close>, booleans, integers,
  floats, strings, lists, and dictionaries with string keys (in insertion order). A
  dataclass does not check its annotations, so the fields of \<open>Step\<close> and \<open>Script\<close> hold
  such values.
\<close>

datatype pyval =
    PNone
  | PBool bool
  | PInt int
  | PFloat real
  | PStr pystr
  | PList "pyval list"
  | PDict "(pystr \<times> pyval) list"

datatype pyexn =
    JSONDecodeError
  | UnicodeDecodeError
  | UnicodeEncodeError
  | FileNotFoundError
  | KeyError
  | TypeError
  | AttributeError
  | IndexError

record Step =
  step_id :: pyval
  step_text :: pyval
  step_press_enter :: pyval
  step_delay_before :: pyval

record Script =
  script_id :: pyval
  script_name :: pyval
  script_description :: pyval
  script_steps :: "Step list"
  script_created_at :: pyval
  script_updated_at :: pyval

definition step_fields :: "pystr list" where
  "step_fields = [str ''id'', str ''text'', str ''press_enter'', str ''delay_before'']"

text \<open>
  \<open>Step(**kwargs)\<close>: the generated \<open>__init__\<close> raises \<open>TypeError\<close> for a keyword that is not
  a field, and takes the default for a field that is not given. The default of \<open>id\<close> is
  \<open>str(uuid.uuid4())\<close>; \<open>uuid\<close> is the string that call returns.
\<close>

definition Step_init :: "pystr \<Rightarrow> (pystr \<times> pyval) list \<Rightarrow> pyexn + Step" where
  "Step_init uuid kwargs =
     (if list_all (\<lambda>(k, v). k \<in> set step_fields) kwargs
      then Inr \<lparr>step_id = dict_get kwargs (str ''id'') (PStr uuid),
                step_text = dict_get kwargs (str ''text'') (PStr (str '''')),
                step_press_enter = dict_get kwargs (str ''press_enter'') (PBool True),
                step_delay_before = dict_get kwargs (str ''delay_before'') (PFloat 0.3)\<rparr>
      else Inl TypeError)"



text \<open>
  \<open>Step.preview\<close> (lines 17--22): \<open>self.text.replace\<close> exists for a string only.
\<close>

definition preview :: "Step \<Rightarrow> nat \<Rightarrow> pyexn + pystr" where
  "preview st max_len =
     (case step_text st of
        PStr s \<Rightarrow>
          (let text = map (\<lambda>c. if c = 10 then 32 else c) s
           in Inr (if length text > max_len then take (max_len - 3) text @ str ''...'' else text))
      | _ \<Rightarrow> Inl AttributeError)"

section \<open>storage.py\<close>

subsection \<open>Operations of Python on values\<close>

text \<open>Iteration (\<open>for x in v\<close>): a dictionary yields its keys, a string its characters.\<close>

fun py_iter :: "pyval \<Rightarrow> pyexn + pyval list" where
  "py_iter (PList xs) = Inr xs"
| "py_iter (PDict kvs) = Inr (map (\<lambda>(k, v). PStr k) kvs)"
| "py_iter (PStr s) = Inr (map (\<lambda>c. PStr [c]) s)"
| "py_iter _ = Inl TypeError"

text \<open>\<open>d.get(key, default)\<close>: only a dictionary has the method.\<close>

fun py_get :: "pyval \<Rightarrow> pystr \<Rightarrow> pyval \<Rightarrow> pyexn + pyval" where
  "py_get (PDict kvs) k dflt = Inr (dict_get kvs k dflt)"
| "py_get _ k dflt = Inl AttributeError"

text \<open>\<open>d[key]\<close> for a string key.\<close>

fun py_getitem :: "pyval \<Rightarrow> pystr \<Rightarrow> pyexn + pyval" where
  "py_getitem (PDict kvs) k = (case map_of kvs k of None \<Rightarrow> Inl KeyError | Some v \<Rightarrow> Inr v)"
| "py_getitem _ k = Inl TypeError"

text \<open>
  \<open>s.pop("role", None)\<close>: removes the key from a dictionary; \<open>list.pop\<close> takes at most one
  argument; the other values have no such method. The result is the value \<open>s\<close> afterwards.
\<close>

fun pop_role :: "pyval \<Rightarrow> pyexn + pyval" where
  "pop_role (PDict kvs) = Inr (PDict (filter (\<lambda>(k, v). k \<noteq> str ''role'') kvs))"
| "pop_role (PList xs) = Inl TypeError"
| "pop_role _ = Inl AttributeError"

text \<open>\<open>Step(**s)\<close>: the argument after \<open>**\<close> must be a mapping.\<close>

fun step_of :: "pystr \<Rightarrow> pyval \<Rightarrow> pyexn + Step" where
  "step_of uuid (PDict kvs) = Step_init uuid kvs"
| "step_of uuid _ = Inl TypeError"

text \<open>
  A loop or comprehension \<open>[f(x) for x in xs]\<close> whose body may raise: the first exception
  ends it. The index of the element is passed to the body.
\<close>

fun traverse :: "(nat \<Rightarrow> 'a \<Rightarrow> pyexn + 'b) \<Rightarrow> nat \<Rightarrow> 'a list \<Rightarrow> pyexn + 'b list" where
  "traverse f i [] = Inr []"
| "traverse f i (x # xs) =
     (case f i x of
        Inl ex \<Rightarrow> Inl ex
      | Inr y \<Rightarrow> (case traverse f (Suc i) xs of Inl ex \<Rightarrow> Inl ex | Inr ys \<Rightarrow> Inr (y # ys)))"

subsection \<open>Conversion between scripts and dictionaries\<close>

text \<open>
  \<open>_dict_to_script\<close> (lines 55--69); \<open>uuid4 j\<close> is the identifier \<open>uuid.uuid4()\<close> would
  generate for the step of index \<open>j\<close>, used only if that step has no \<open>id\<close>.
\<close>

definition dict_to_script :: "(nat \<Rightarrow> pystr) \<Rightarrow> pyval \<Rightarrow> pyexn + Script" where
  "dict_to_script uuid4 d =
     (case py_get d (str ''steps'') (PList []) of Inl ex \<Rightarrow> Inl ex | Inr raw_steps \<Rightarrow>
      case py_iter raw_steps of Inl ex \<Rightarrow> Inl ex | Inr items \<Rightarrow>
      case traverse (\<lambda>j. pop_role) 0 items of Inl ex \<Rightarrow> Inl ex | Inr stripped \<Rightarrow>
      case traverse (\<lambda>j. step_of (uuid4 j)) 0 stripped of Inl ex \<Rightarrow> Inl ex | Inr steps \<Rightarrow>
      case py_getitem d (str ''id'') of Inl ex \<Rightarrow> Inl ex | Inr i \<Rightarrow>
      case py_getitem d (str ''name'') of Inl ex \<Rightarrow> Inl ex | Inr n \<Rightarrow>
      case py_get d (str ''description'') (PStr (str '''')) of Inl ex \<Rightarrow> Inl ex | Inr descr \<Rightarrow>
      case py_get d (str ''created_at'') (PStr (str '''')) of Inl ex \<Rightarrow> Inl ex | Inr created \<Rightarrow>
      case py_get d (str ''updated_at'') (PStr (str '''')) of Inl ex \<Rightarrow> Inl ex | Inr updated \<Rightarrow>
      Inr \<lparr>script_id = i, script_name = n, script_description = descr, script_steps = steps,
           script_created_at = created, script_updated_at = updated\<rparr>)"

definition step_to_dict :: "Step \<Rightarrow> pyval" where
  "step_to_dict st =
     PDict [(str ''id'', step_id st),
            (str ''text'', step_text st),
            (str ''press_enter'', step_press_enter st),
            (str ''delay_before'', step_delay_before st)]"

definition script_to_dict :: "Script \<Rightarrow> pyval" where
  "script_to_dict s =
     PDict [(str ''id'', script_id s),
            (str ''name'', script_name s),
            (str ''description'', script_description s),
            (str ''steps'', PList (map step_to_dict (script_steps s))),
            (str ''created_at'', script_created_at s),
            (str ''updated_at'', script_updated_at s)]"

subsection \<open>The data file\<close>

text \<open>
  The file at \<open>self.filepath\<close>: absent, or present with bytes that are not UTF-8, with
  text that is not JSON, or with the JSON text of a value. The JSON text itself is not
  modelled: \<open>json.dump\<close> writes a value and \<open>json.load\<close> reads that value back.
\<close>

datatype disk = NoFile | Undecodable | Unparsable | Holds pyval

text \<open>\<open>open(self.filepath, "r", encoding="utf-8")\<close> followed by \<open>json.load(f)\<close>.\<close>

fun json_load :: "disk \<Rightarrow> pyexn + pyval" where
  "json_load NoFile = Inl FileNotFoundError"
| "json_load Undecodable = Inl UnicodeDecodeError"
| "json_load Unparsable = Inl JSONDecodeError"
| "json_load (Holds v) = Inr v"

text \<open>
  \<open>Storage.load\<close> (lines 38--46); \<open>uuid4 i j\<close> is the identifier generated for step \<open>j\<close> of
  record \<open>i\<close>. The result is paired with the file afterwards.
\<close>

definition load :: "(nat \<Rightarrow> nat \<Rightarrow> pystr) \<Rightarrow> disk \<Rightarrow> (pyexn + Script list) \<times> disk" where
  "load uuid4 dk =
     (if dk = NoFile then (Inr [], dk)
      else
        (case (case json_load dk of Inl ex \<Rightarrow> Inl ex | Inr data \<Rightarrow>
               case py_iter data of Inl ex \<Rightarrow> Inl ex | Inr ds \<Rightarrow>
               traverse (\<lambda>i. dict_to_script (uuid4 i)) 0 ds) of
           Inl JSONDecodeError \<Rightarrow> (Inr [], dk)
         | Inl KeyError \<Rightarrow> (Inr [], dk)
         | Inl ex \<Rightarrow> (Inl ex, dk)
         | Inr scripts \<Rightarrow> (Inr scripts, dk)))"

text \<open>
  What \<open>json.dump(..., ensure_ascii=False)\<close> can write to a file opened with
  \<open>encoding="utf-8"\<close>: a string is written as it is, and a surrogate code point
  (\<open>U+D800\<close> to \<open>U+DFFF\<close>) has no UTF-8 encoding.
\<close>

definition encodable_str :: "pystr \<Rightarrow> bool" where
  "encodable_str s = list_all (\<lambda>c. c < 0xD800 \<or> (0xDFFF < c \<and> c \<le> 0x10FFFF)) s"

fun encodable :: "pyval \<Rightarrow> bool" where
  "encodable (PStr s) = encodable_str s"
| "encodable (PList xs) = list_all encodable xs"
| "encodable (PDict kvs) = list_all (\<lambda>(k, v). encodable_str k \<and> encodable v) kvs"
| "encodable _ = True"

text \<open>
  \<open>Storage.save\<close> (lines 49--52): \<open>open(..., "w")\<close> empties the file and \<open>json.dump\<close> writes
  the value piece by piece. At a string that cannot be encoded the write raises
  \<open>UnicodeEncodeError\<close>, and the file is left with the beginning of the JSON text, which is
  not JSON. The result is the exception, if any, and the file afterwards. Failures of the
  file system itself are not modelled.
\<close>

definition save :: "Script list \<Rightarrow> disk \<Rightarrow> pyexn option \<times> disk" where
  "save scripts dk =
     (let data = PList (map script_to_dict scripts)
      in if encodable data then (None, Holds data) else (Some UnicodeEncodeError, Unparsable))"

subsection \<open>Files in the sense of the specification\<close>

text \<open>
  A record that is an object lacking a required key (\<open>id\<close> or \<open>name\<close>), and a file that is
  malformed in the sense of section 7: not parseable as JSON, or a list containing such a
  record.
\<close>

fun missing_required_key :: "pyval \<Rightarrow> bool" where
  "missing_required_key (PDict kvs) = (map_of kvs (str ''id'') = None \<or> map_of kvs (str ''name'') = None)"
| "missing_required_key _ = False"

fun malformed :: "disk \<Rightarrow> bool" where
  "malformed Unparsable = True"
| "malformed (Holds (PList ds)) = list_ex missing_required_key ds"
| "malformed _ = False"

text \<open>
  A step object that \<open>Step(**s)\<close> accepts once \<open>role\<close> is removed; a record whose steps are
  absent or a list of such objects; a record that converts: an object with such steps,
  \<open>id\<close> and \<open>name\<close>.
\<close>

fun step_ok :: "pyval \<Rightarrow> bool" where
  "step_ok (PDict kvs) = list_all (\<lambda>(k, v). k \<in> set step_fields \<or> k = str ''role'') kvs"
| "step_ok _ = False"

fun steps_ok :: "pyval \<Rightarrow> bool" where
  "steps_ok (PDict kvs) =
     (case map_of kvs (str ''steps'') of
        None \<Rightarrow> True
      | Some (PList ss) \<Rightarrow> list_all step_ok ss
      | Some _ \<Rightarrow> False)"
| "steps_ok _ = False"

definition record_ok :: "pyval \<Rightarrow> bool" where
  "record_ok d = (steps_ok d \<and> \<not> missing_required_key d)"

text \<open>A legacy file: every step object carries a \<open>role\<close> entry, at position \<open>pos st\<close>.\<close>

definition legacy_step_to_dict :: "(Step \<Rightarrow> nat) \<Rightarrow> (Step \<Rightarrow> pyval) \<Rightarrow> Step \<Rightarrow> pyval" where
  "legacy_step_to_dict pos role st =
     (case step_to_dict st of
        PDict kvs \<Rightarrow> PDict (take (pos st) kvs @ [(str ''role'', role st)] @ drop (pos st) kvs)
      | v \<Rightarrow> v)"

definition legacy_script_to_dict :: "(Step \<Rightarrow> nat) \<Rightarrow> (Step \<Rightarrow> pyval) \<Rightarrow> Script \<Rightarrow> pyval" where
  "legacy_script_to_dict pos role s =
     PDict [(str ''id'', script_id s),
            (str ''name'', script_name s),
            (str ''description'', script_description s),
            (str ''steps'', PList (map (legacy_step_to_dict pos role) (script_steps s))),
            (str ''created_at'', script_created_at s),
            (str ''updated_at'', script_updated_at s)]"

text \<open>A fixed identifier supply for concrete evaluations.\<close>

definition uuid_fixed :: "nat \<Rightarrow> nat \<Rightarrow> pystr" where
  "uuid_fixed i j = str ''8f14e45f-ceea-467f-a0e6-1b2c3d4e5f60''"

section \<open>app.py: the hotkey dispatch\<close>

text \<open>
  The attributes of \<open>DemoScripterApp\<close> that the dispatch reads or writes. \<open>scheduled\<close> holds
  the callbacks registered with \<open>self.after\<close> (with their delay in milliseconds) that the
  UI loop has not run yet; \<open>launched\<close> holds the arguments of the calls of
  \<open>self.typer.type_text\<close>, each of which starts one worker thread.
\<close>

datatype callback = TypeNextStep | OnStepTyped

record type_text_call =
  call_text :: pyval
  call_press_enter :: pyval
  call_delay_before :: pyval

record app =
  hotkey_key :: key
  demo_running :: bool
  demo_step_idx :: int
  selected_script :: "Script option"
  typer :: engine
  scheduled :: "(nat \<times> callback) list"
  launched :: "type_text_call list"

text \<open>\<open>xs[i]\<close> on a list: a negative index counts from the end.\<close>

definition list_index :: "'a list \<Rightarrow> int \<Rightarrow> pyexn + 'a" where
  "list_index xs i =
     (let n = int (length xs); j = (if i < 0 then n + i else i)
      in if 0 \<le> j \<and> j < n then Inr (xs ! nat j) else Inl IndexError)"

text \<open>
  The redrawing changes no attribute of the model, but it can raise: \<open>_refresh_step_list\<close>
  (lines 719--741) calls \<open>step.preview(48)\<close> for every step of the selected script, in
  \<open>_update_step_card\<close>; the widgets themselves are not modelled. The result is the
  exception raised, if any.
\<close>

definition refresh_step_list :: "app \<Rightarrow> pyexn option" where
  "refresh_step_list a =
     (case selected_script a of
        None \<Rightarrow> None
      | Some script \<Rightarrow>
          (case traverse (\<lambda>idx st. preview st 48) 0 (script_steps script) of
             Inl ex \<Rightarrow> Some ex
           | Inr previews \<Rightarrow> None))"

text \<open>\<open>_update_runner_state\<close> (lines 991--1022).\<close>

definition update_runner_state :: "app \<Rightarrow> pyexn option" where
  "update_runner_state a =
     (if \<not> demo_running a then refresh_step_list a
      else
        let total = (case selected_script a of
                       None \<Rightarrow> 0
                     | Some script \<Rightarrow> int (length (script_steps script)));
            idx = demo_step_idx a
        in if idx \<ge> total then refresh_step_list a
           else
             (case selected_script a of
                None \<Rightarrow> Some AttributeError
              | Some script \<Rightarrow>
                  (case list_index (script_steps script) idx of
                     Inl ex \<Rightarrow> Some ex
                   | Inr step \<Rightarrow>
                       (case preview step 70 of
                          Inl ex \<Rightarrow> Some ex
                        | Inr p \<Rightarrow> refresh_step_list a))))"

text \<open>\<open>_on_global_key\<close> (lines 1037--1039), called by the listener for every key press.\<close>

definition on_global_key :: "key \<Rightarrow> app \<Rightarrow> app" where
  "on_global_key k a =
     (if k = hotkey_key a \<and> demo_running a \<and> \<not> is_typing (typer a)
      then a\<lparr>scheduled := scheduled a @ [(10, TypeNextStep)]\<rparr>
      else a)"

text \<open>
  \<open>_type_next_step\<close> (lines 1041--1055). A \<open>Script\<close> object is always true in a condition,
  so \<open>not self.selected_script\<close> holds for \<open>None\<close> only. The result is the state afterwards
  and the exception that left the callback, if any: an exception raised by the redrawing
  leaves the index incremented and makes no call of \<open>type_text\<close>.
\<close>

definition type_next_step :: "app \<Rightarrow> app \<times> pyexn option" where
  "type_next_step a =
     (case selected_script a of
        None \<Rightarrow> (a, None)
      | Some script \<Rightarrow>
          if \<not> demo_running a then (a, None)
          else
            let steps = script_steps script in
            if demo_step_idx a \<ge> int (length steps) then (a, None)
            else
              (case list_index steps (demo_step_idx a) of
                 Inl ex \<Rightarrow> (a, Some ex)
               | Inr step \<Rightarrow>
                   let a1 = a\<lparr>demo_step_idx := demo_step_idx a + 1\<rparr> in
                   (case update_runner_state a1 of
                      Some ex \<Rightarrow> (a1, Some ex)
                    | None \<Rightarrow>
                        (a1\<lparr>typer := begin_typing (typer a1),
                            launched := launched a1
                              @ [\<lparr>call_text = step_text step,
                                  call_press_enter = step_press_enter step,
                                  call_delay_before = step_delay_before step\<rparr>]\<rparr>,
                         None))))"

text \<open>The UI loop runs the callback scheduled first; \<open>_on_step_typed\<close> only redraws.\<close>

definition run_scheduled :: "app \<Rightarrow> app \<times> pyexn option" where
  "run_scheduled a =
     (case scheduled a of
        [] \<Rightarrow> (a, None)
      | (ms, TypeNextStep) # rest \<Rightarrow> type_next_step (a\<lparr>scheduled := rest\<rparr>)
      | (ms, OnStepTyped) # rest \<Rightarrow>
          (a\<lparr>scheduled := rest\<rparr>, update_runner_state (a\<lparr>scheduled := rest\<rparr>)))"

text \<open>All the step texts of a script are strings, as the editor writes them.\<close>

definition texts_are_str :: "Script \<Rightarrow> bool" where
  "texts_are_str script =
     list_all (\<lambda>st. case step_text st of PStr s \<Rightarrow> True | _ \<Rightarrow> False) (script_steps script)"

text \<open>
  An armed demo on the script of the end-to-end example of the specification (steps
  "Hello" and "World"), with the first step already typed.
\<close>

definition demo_app :: app where
  "demo_app = \<lparr>hotkey_key = F 2, demo_running = True, demo_step_idx = 1,
     selected_script = Some \<lparr>script_id = PStr (str ''s''), script_name = PStr (str ''Demo''),
        script_description = PStr (str ''''),
        script_steps = [\<lparr>step_id = PStr (str ''a''), step_text = PStr (str ''Hello''),
                          step_press_enter = PBool True, step_delay_before = PFloat 0\<rparr>,
                        \<lparr>step_id = PStr (str ''b''), step_text = PStr (str ''World''),
                          step_press_enter = PBool True, step_delay_before = PFloat 0\<rparr>],
        script_created_at = PStr (str ''''), script_updated_at = PStr (str '''')\<rparr>,
     typer = engine_init, scheduled = [], launched = []\<rparr>"

section \<open>Lemmas on the worker\<close>

subsection \<open>Termination\<close>

lemmas step_defs = worker_step_def sleep_def control_def goto_def emit_def raise_exn_def

lemma fuel_Exited: "fuel w = 0 \<longleftrightarrow> w_pc w = Exited"
  by (cases "w_pc w") (simp_all add: fuel_def)

lemma fuel_step:
  assumes "w_pc w \<noteq> Exited"
  shows "fuel (snd (worker_step en ses (e, w))) < fuel w"
  using assms
  by (cases "w_pc w") (auto simp: step_defs fuel_def Let_def split: list.splits)

lemma step_Exited: "w_pc w = Exited \<Longrightarrow> worker_step en ses (e, w) = (e, w)"
  by (simp add: worker_step_def)

lemma run_Nil: "run en ses [] c = c"
  by (simp add: run_def)

lemma run_Cons: "run en ses (a # sched) c = run en ses sched (act en ses a c)"
  by (simp add: run_def)

lemma run_append: "run en ses (xs @ ys) c = run en ses ys (run en ses xs c)"
  by (simp add: run_def)

lemma act_fuel:
  "fuel (snd (act en ses a c)) \<le> fuel (snd c) - (if a = Worker then 1 else 0)"
proof (cases c)
  case (Pair e w)
  show ?thesis
  proof (cases a)
    case Worker
    show ?thesis
    proof (cases "w_pc w = Exited")
      case True
      with Pair Worker show ?thesis using fuel_Exited [of w] by (simp add: step_Exited)
    next
      case False
      from fuel_step [OF this, of en ses e] Pair Worker show ?thesis by simp
    qed
  qed (simp_all add: Pair)
qed

lemma run_fuel: "fuel (snd (run en ses sched c)) \<le> fuel (snd c) - workers sched"
proof (induction sched arbitrary: c)
  case Nil
  show ?case by (simp add: run_Nil workers_def)
next
  case (Cons a sched)
  have "fuel (snd (run en ses sched (act en ses a c))) \<le> fuel (snd (act en ses a c)) - workers sched"
    by (rule Cons.IH)
  also have "\<dots> \<le> (fuel (snd c) - (if a = Worker then 1 else 0)) - workers sched"
    using act_fuel [of en ses a c] by (rule diff_le_mono)
  also have "\<dots> = fuel (snd c) - workers (a # sched)"
    by (simp add: workers_def)
  finally show ?case by (simp add: run_Cons)
qed

lemma run_exits:
  assumes "fuel (snd c) \<le> workers sched"
  shows "w_pc (snd (run en ses sched c)) = Exited"
proof -
  from run_fuel [of en ses sched c] assms have "fuel (snd (run en ses sched c)) = 0" by simp
  then show ?thesis by (simp add: fuel_Exited)
qed

subsection \<open>Observations on traces\<close>

lemma typed_chars_simps:
  "typed_chars [] = []"
  "typed_chars (t @ [TypeChar c]) = typed_chars t @ [c]"
  "typed_chars (t @ [Sleep d]) = typed_chars t"
  "typed_chars (t @ [Press k]) = typed_chars t"
  "typed_chars (t @ [Release k]) = typed_chars t"
  "typed_chars (t @ [OnChar i c]) = typed_chars t"
  "typed_chars (t @ [OnDone]) = typed_chars t"
  by (simp_all add: typed_chars_def)

lemma enter_events_simps:
  "enter_events [] = []"
  "enter_events (t @ [TypeChar c]) = enter_events t"
  "enter_events (t @ [Sleep d]) = enter_events t"
  "enter_events (t @ [Press k]) = enter_events t @ (if k = Enter then [Press Enter] else [])"
  "enter_events (t @ [Release k]) = enter_events t @ (if k = Enter then [Release Enter] else [])"
  "enter_events (t @ [OnChar i c]) = enter_events t"
  "enter_events (t @ [OnDone]) = enter_events t"
  by (auto simp: enter_events_def)

lemma on_done_calls_simps:
  "on_done_calls [] = 0"
  "on_done_calls (t @ [TypeChar c]) = on_done_calls t"
  "on_done_calls (t @ [Sleep d]) = on_done_calls t"
  "on_done_calls (t @ [Press k]) = on_done_calls t"
  "on_done_calls (t @ [Release k]) = on_done_calls t"
  "on_done_calls (t @ [OnChar i c]) = on_done_calls t"
  "on_done_calls (t @ [OnDone]) = Suc (on_done_calls t)"
  by (simp_all add: on_done_calls_def)

lemmas obs_simps = typed_chars_simps enter_events_simps on_done_calls_simps

subsection \<open>Invariants\<close>

lemma fin_inv_step: "fin_inv ses c \<Longrightarrow> fin_inv ses (worker_step en ses c)"
  apply (cases c)
  subgoal for e w
    by (cases "w_pc w") (auto simp: fin_inv_def step_defs obs_simps Let_def split: list.splits)
  done

lemma fin_inv_act: "fin_inv ses c \<Longrightarrow> fin_inv ses (act en ses a c)"
  by (cases a; cases c) (auto simp: fin_inv_step, auto simp: fin_inv_def stop_set_def stop_clear_typing_def)

lemma fin_inv_run: "fin_inv ses c \<Longrightarrow> fin_inv ses (run en ses sched c)"
  by (induction sched arbitrary: c) (simp_all add: run_Nil run_Cons fin_inv_act)

lemma fin_inv_start: "fin_inv ses (start (e, ses))"
  by (simp add: fin_inv_def start_def worker_init_def obs_simps)

lemma loop_inv_step: "loop_inv ses c \<Longrightarrow> loop_inv ses (worker_step en ses c)"
  apply (cases c)
  subgoal for e w
    by (cases "w_pc w") (simp_all add: loop_inv_def pending_def step_defs obs_simps Let_def split: list.splits)
  done

lemma loop_inv_act: "loop_inv ses c \<Longrightarrow> loop_inv ses (act en ses a c)"
  by (cases a; cases c) (simp_all add: loop_inv_step, simp_all add: loop_inv_def)

lemma loop_inv_run: "loop_inv ses c \<Longrightarrow> loop_inv ses (run en ses sched c)"
  by (induction sched arbitrary: c) (simp_all add: run_Nil run_Cons loop_inv_act)

lemma loop_inv_start: "loop_inv ses (start (e, ses))"
  by (simp add: loop_inv_def start_def worker_init_def pending_def obs_simps)

lemma prefix_inv_step:
  "loop_inv ses c \<Longrightarrow> prefix_inv ses c \<Longrightarrow> prefix_inv ses (worker_step en ses c)"
  apply (cases c)
  subgoal for e w
    by (cases "w_pc w")
       (simp_all add: loop_inv_def prefix_inv_def pending_def step_defs obs_simps Let_def split: list.splits)
  done

lemma complete_inv_step:
  "loop_inv ses c \<Longrightarrow> complete_inv ses c \<Longrightarrow> complete_inv ses (worker_step en ses c)"
  apply (cases c)
  subgoal for e w
    by (cases "w_pc w")
       (simp_all add: loop_inv_def complete_inv_def pending_def step_defs obs_simps Let_def split: list.splits)
  done

lemma stopped_inv_step: "stopped_inv N c \<Longrightarrow> stopped_inv N (worker_step en ses c)"
  apply (cases c)
  subgoal for e w
    by (cases "w_pc w")
       (simp_all add: stopped_inv_def step_defs obs_simps Let_def split: list.splits)
  done

lemma not_typing_act: "\<not> is_typing (fst c) \<Longrightarrow> \<not> is_typing (fst (act en ses a c))"
  apply (cases c)
  subgoal for e w
    by (cases a; cases "w_pc w") (simp_all add: step_defs stop_set_def stop_clear_typing_def Let_def split: list.splits)
  done

lemma not_typing_run: "\<not> is_typing (fst c) \<Longrightarrow> \<not> is_typing (fst (run en ses sched c))"
  by (induction sched arbitrary: c) (simp_all add: run_Nil run_Cons not_typing_act)

lemma prefix_inv_act:
  "loop_inv ses c \<Longrightarrow> prefix_inv ses c \<Longrightarrow> prefix_inv ses (act en ses a c)"
  by (cases a; cases c) (simp_all add: prefix_inv_step, simp_all add: prefix_inv_def)

lemma prefix_inv_run:
  "loop_inv ses c \<Longrightarrow> prefix_inv ses c \<Longrightarrow> prefix_inv ses (run en ses sched c)"
  by (induction sched arbitrary: c) (simp_all add: run_Nil run_Cons prefix_inv_act loop_inv_act)

lemma prefix_inv_start: "prefix_inv ses (start (e, ses))"
  by (simp add: prefix_inv_def start_def worker_init_def obs_simps)

lemma complete_inv_act:
  "loop_inv ses c \<Longrightarrow> complete_inv ses c \<Longrightarrow> complete_inv ses (act en ses a c)"
  by (cases a; cases c)
     (simp_all add: complete_inv_step, simp_all add: complete_inv_def stop_set_def stop_clear_typing_def)

lemma complete_inv_run:
  "loop_inv ses c \<Longrightarrow> complete_inv ses c \<Longrightarrow> complete_inv ses (run en ses sched c)"
  by (induction sched arbitrary: c) (simp_all add: run_Nil run_Cons complete_inv_act loop_inv_act)

lemma complete_inv_start: "complete_inv ses (start (e, ses))"
  by (simp add: complete_inv_def start_def worker_init_def obs_simps)

lemma stopped_inv_act: "stopped_inv N c \<Longrightarrow> stopped_inv N (act en ses a c)"
  by (cases a; cases c)
     (simp_all add: stopped_inv_step, simp_all add: stopped_inv_def stop_set_def stop_clear_typing_def)

lemma stopped_inv_run: "stopped_inv N c \<Longrightarrow> stopped_inv N (run en ses sched c)"
  by (induction sched arbitrary: c) (simp_all add: run_Nil run_Cons stopped_inv_act)

lemma workers_only_keep_flag:
  "stop_flag (fst (run en ses (replicate n Worker) c)) = stop_flag (fst c)"
proof (induction n arbitrary: c)
  case 0
  show ?case by (simp add: run_Nil)
next
  case (Suc n)
  have "stop_flag (fst (worker_step en ses c)) = stop_flag (fst c)"
    apply (cases c)
    subgoal for e w
      by (cases "w_pc w") (simp_all add: step_defs Let_def split: list.splits)
    done
  with Suc show ?case by (simp add: run_Cons)
qed

lemma stopped_inv_established:
  assumes inv: "loop_inv ses c" "complete_inv ses c"
    and flag: "\<not> stop_flag (fst c)"
    and N: "length (typed_chars (w_trace (snd c))) = N" "N < length (s_text ses)"
  shows "stopped_inv N (act en ses StopSet c)"
proof (cases c)
  case (Pair e w)
  from N Pair have ne: "typed_chars (w_trace w) \<noteq> s_text ses" by auto
  with inv(2) flag Pair have "\<not> at_enter (w_pc w)" and "enter_events (w_trace w) = []"
    by (auto simp: complete_inv_def)
  moreover from \<open>\<not> at_enter (w_pc w)\<close> have "\<not> enter_pending (w_pc w)"
    by (cases "w_pc w") simp_all
  ultimately show ?thesis using N Pair
    by (simp add: stopped_inv_def stop_set_def)
qed


subsection \<open>Delays\<close>

lemma pause_chars_set:
  "set pause_chars = {of_char CHR '' '', of_char CHR ''.'', of_char CHR '','', of_char CHR ''!'',
     of_char CHR ''?'', of_char CHR '';'', of_char CHR '':'', 10}"
  by (simp add: pause_chars_def str_def)

lemma uniform_bounds:
  assumes "a \<le> b" "0 \<le> u" "u \<le> 1"
  shows "a \<le> uniform a b u \<and> uniform a b u \<le> b"
proof -
  from assms have "0 \<le> (b - a) * u" by simp
  moreover from assms have "(b - a) * u \<le> (b - a) * 1"
    by (intro mult_left_mono) simp_all
  ultimately show ?thesis by (simp add: uniform_def)
qed


lemma keystroke_delay_floor:
  assumes "0.003 \<le> base_delay e"
  shows "0.003 \<le> keystroke_delay e c u"
proof (cases "humanize e")
  case True
  then obtain x where "keystroke_delay e c u = max 0.003 x"
    by (simp add: keystroke_delay_def Let_def)
  then show ?thesis by (simp only: max.cobounded1)
next
  case False
  with assms show ?thesis by (simp add: keystroke_delay_def)
qed

subsection \<open>The uncancelled run\<close>

lemma run_workers_add:
  "run en ses (replicate (m + n) Worker) c
   = run en ses (replicate n Worker) (run en ses (replicate m Worker) c)"
  by (simp add: replicate_add run_append)

lemma loop_iteration:
  assumes "\<not> stop_flag e" and "\<forall>p i. \<not> raises en p i" and "0.003 \<le> base_delay e"
    and "w_pc w = L83" and "w_iter w = c # cs"
  shows "run en ses (replicate 5 Worker) (e, w)
         = (e, w\<lparr>w_pc := L83, w_iter := cs, w_count := Suc (w_count w), w_i := w_count w,
                 w_char := c,
                 w_trace := w_trace w @ char_events e en ses (w_count w) [c]\<rparr>)"
proof -
  have "\<not> keystroke_delay e c u < 0" for u
    using keystroke_delay_floor [OF assms(3), of c u] by simp
  with assms show ?thesis
    by (simp add: run_def eval_nat_numeral step_defs)
qed

lemma char_events_append:
  "char_events e en ses k (xs @ ys)
   = char_events e en ses k xs @ char_events e en ses (k + length xs) ys"
  by (induction xs arbitrary: k) simp_all

lemma loop_runs:
  assumes "\<not> stop_flag e" and "\<forall>p i. \<not> raises en p i" and "0.003 \<le> base_delay e"
  shows "w_pc w = L83 \<Longrightarrow> w_iter w = cs \<Longrightarrow>
         \<exists>w'. run en ses (replicate (5 * length cs + 1) Worker) (e, w) = (e, w')
               \<and> w_pc w' = L106
               \<and> w_trace w' = w_trace w @ char_events e en ses (w_count w) cs
               \<and> w_failed w' = w_failed w"
proof (induction cs arbitrary: w)
  case Nil
  then show ?case
    by (simp add: run_def step_defs)
next
  case (Cons c cs)
  let ?w5 = "w\<lparr>w_pc := L83, w_iter := cs, w_count := Suc (w_count w), w_i := w_count w,
                 w_char := c,
                 w_trace := w_trace w @ char_events e en ses (w_count w) [c]\<rparr>"
  have five: "run en ses (replicate 5 Worker) (e, w) = (e, ?w5)"
    using assms Cons.prems by (rule loop_iteration)
  have "w_pc ?w5 = L83" and "w_iter ?w5 = cs" by simp_all
  from Cons.IH [OF this] obtain w' where
    w': "run en ses (replicate (5 * length cs + 1) Worker) (e, ?w5) = (e, w')"
      "w_pc w' = L106"
      "w_trace w' = w_trace ?w5 @ char_events e en ses (w_count ?w5) cs"
      "w_failed w' = w_failed ?w5"
    by blast
  have "run en ses (replicate (5 + (5 * length cs + 1)) Worker) (e, w)
        = run en ses (replicate (5 * length cs + 1) Worker) (run en ses (replicate 5 Worker) (e, w))"
    by (rule run_workers_add)
  also have "\<dots> = (e, w')"
    by (simp only: five w'(1))
  finally have "run en ses (replicate (5 * length (c # cs) + 1) Worker) (e, w) = (e, w')"
    by (simp add: add.commute)
  with w'(2-4) show ?case by simp
qed

lemma run_Exited: "w_pc w = Exited \<Longrightarrow> run en ses (replicate k Worker) (e, w) = (e, w)"
  by (induction k) (simp_all add: run_Nil run_Cons step_Exited)

lemma prelude_runs:
  assumes "\<forall>p i. \<not> raises en p i" and "0 \<le> s_delay_before ses"
  shows "run en ses (replicate (if caps_lock_on en then 5 else 2) Worker) (e, worker_init ses)
         = (e, (worker_init ses)\<lparr>w_pc := L83,
                 w_trace := [Sleep (s_delay_before ses)]
                   @ (if caps_lock_on en then [Press CapsLock, Release CapsLock] else [])\<rparr>)"
  using assms by (simp add: run_def eval_nat_numeral step_defs worker_init_def)

lemma epilogue_runs:
  assumes "\<forall>p i. \<not> raises en p i" and "\<not> stop_flag e" and "w_pc w = L106"
  shows "run en ses (replicate 6 Worker) (e, w)
         = (e\<lparr>is_typing := False\<rparr>,
            w\<lparr>w_pc := Exited,
              w_trace := w_trace w
                @ (if s_press_enter ses then [Sleep 0.08, Press Enter, Release Enter] else [])
                @ (if s_on_done ses then [OnDone] else [])\<rparr>)"
  using assms by (simp add: run_def eval_nat_numeral step_defs)

lemma uncancelled_run:
  assumes ok: "\<forall>p i. \<not> raises en p i" and db: "0 \<le> s_delay_before ses"
    and bd: "0.003 \<le> base_delay e" and flag: "\<not> stop_flag e"
    and n: "5 * length (s_text ses) + 12 \<le> n"
  shows "\<exists>w'. run en ses (replicate n Worker) (e, worker_init ses) = (e\<lparr>is_typing := False\<rparr>, w')
           \<and> w_pc w' = Exited \<and> \<not> w_failed w' \<and> w_trace w' = expected_trace e en ses"
proof -
  let ?p = "if caps_lock_on en then 5 else 2 :: nat"
  let ?l = "5 * length (s_text ses) + 1"
  let ?wa = "(worker_init ses)\<lparr>w_pc := L83,
                 w_trace := [Sleep (s_delay_before ses)]
                   @ (if caps_lock_on en then [Press CapsLock, Release CapsLock] else [])\<rparr>"
  have a: "run en ses (replicate ?p Worker) (e, worker_init ses) = (e, ?wa)"
    using ok db by (rule prelude_runs)
  have "w_pc ?wa = L83" and "w_iter ?wa = s_text ses"
    by (simp_all add: worker_init_def)
  from loop_runs [OF flag ok bd this] obtain wb where
    b: "run en ses (replicate ?l Worker) (e, ?wa) = (e, wb)"
      and wb: "w_pc wb = L106" "w_trace wb = w_trace ?wa @ char_events e en ses (w_count ?wa) (s_text ses)"
        "w_failed wb = w_failed ?wa"
    by blast
  let ?wc = "wb\<lparr>w_pc := Exited,
              w_trace := w_trace wb
                @ (if s_press_enter ses then [Sleep 0.08, Press Enter, Release Enter] else [])
                @ (if s_on_done ses then [OnDone] else [])\<rparr>"
  have c: "run en ses (replicate 6 Worker) (e, wb) = (e\<lparr>is_typing := False\<rparr>, ?wc)"
    using ok flag wb(1) by (rule epilogue_runs)
  let ?m = "?p + ?l + 6"
  from n have "n = ?p + (?l + (6 + (n - ?m)))" by simp
  then have "run en ses (replicate n Worker) (e, worker_init ses)
        = run en ses (replicate (?p + (?l + (6 + (n - ?m)))) Worker) (e, worker_init ses)"
    by simp
  also have "\<dots> = run en ses (replicate (?l + (6 + (n - ?m))) Worker) (e, ?wa)"
    using run_workers_add [of en ses ?p "?l + (6 + (n - ?m))" "(e, worker_init ses)"]
    by (simp only: a)
  also have "\<dots> = run en ses (replicate (6 + (n - ?m)) Worker) (e, wb)"
    using run_workers_add [of en ses ?l "6 + (n - ?m)" "(e, ?wa)"]
    by (simp only: b)
  also have "\<dots> = run en ses (replicate (n - ?m) Worker) (e\<lparr>is_typing := False\<rparr>, ?wc)"
    using run_workers_add [of en ses 6 "n - ?m" "(e, wb)"]
    by (simp only: c)
  also have "\<dots> = (e\<lparr>is_typing := False\<rparr>, ?wc)"
    by (rule run_Exited) simp
  finally have "run en ses (replicate n Worker) (e, worker_init ses) = (e\<lparr>is_typing := False\<rparr>, ?wc)" .
  moreover have "w_trace ?wc = expected_trace e en ses"
    by (simp add: wb expected_trace_def worker_init_def)
  moreover have "\<not> w_failed ?wc"
    by (simp add: wb worker_init_def)
  ultimately show ?thesis by (intro exI [of _ ?wc]) simp
qed

subsection \<open>The expected trace\<close>

lemma obs_Cons:
  "typed_chars (ev # t) = (case ev of TypeChar c \<Rightarrow> [c] | _ \<Rightarrow> []) @ typed_chars t"
  "enter_events (ev # t)
     = (if ev = Press Enter \<or> ev = Release Enter then [ev] else []) @ enter_events t"
  "on_done_calls (ev # t) = (if ev = OnDone then 1 else 0) + on_done_calls t"
  by (simp_all add: typed_chars_def enter_events_def on_done_calls_def)

lemma typed_chars_append: "typed_chars (xs @ ys) = typed_chars xs @ typed_chars ys"
  by (simp add: typed_chars_def)

lemma typed_chars_char_events: "typed_chars (char_events e en ses k cs) = cs"
  by (induction cs arbitrary: k) (simp_all add: typed_chars_def)

lemma typed_chars_expected: "typed_chars (expected_trace e en ses) = s_text ses"
  by (simp add: expected_trace_def typed_chars_append typed_chars_char_events obs_Cons obs_simps)

lemma enter_events_append: "enter_events (xs @ ys) = enter_events xs @ enter_events ys"
  by (simp add: enter_events_def)

lemma enter_events_char_events: "enter_events (char_events e en ses k cs) = []"
  by (induction cs arbitrary: k) (simp_all add: enter_events_def)

lemma enter_events_expected:
  "enter_events (expected_trace e en ses)
   = (if s_press_enter ses then [Press Enter, Release Enter] else [])"
  by (simp add: expected_trace_def enter_events_append enter_events_char_events obs_Cons obs_simps)

lemma on_done_calls_append: "on_done_calls (xs @ ys) = on_done_calls xs + on_done_calls ys"
  by (simp add: on_done_calls_def)

lemma on_done_calls_char_events: "on_done_calls (char_events e en ses k cs) = 0"
  by (induction cs arbitrary: k) (simp_all add: on_done_calls_def)

lemma on_done_calls_expected:
  "on_done_calls (expected_trace e en ses) = (if s_on_done ses then 1 else 0)"
  by (simp add: expected_trace_def on_done_calls_append on_done_calls_char_events obs_Cons obs_simps)

lemma gaps_no_chars: "typed_chars t = [] \<Longrightarrow> gaps acc t = []"
proof (induction t arbitrary: acc)
  case Nil
  show ?case by simp
next
  case (Cons ev t)
  from Cons.prems have "typed_chars t = []" and "\<And>c. ev \<noteq> TypeChar c"
    by (auto simp: typed_chars_def)
  with Cons.IH show ?case by (cases ev) auto
qed

lemma gaps_char_events:
  assumes "typed_chars rest = []" and "0.003 \<le> base_delay e"
  shows "length (gaps acc (char_events e en ses k cs @ rest))
           = (if cs = [] then 0 else length cs - 1 + (case acc of None \<Rightarrow> 0 | Some a \<Rightarrow> 1))
         \<and> ((\<forall>a. acc = Some a \<longrightarrow> 0.003 \<le> a)
              \<longrightarrow> (\<forall>d \<in> set (gaps acc (char_events e en ses k cs @ rest)). 0.003 \<le> d))"
proof (induction cs arbitrary: acc k)
  case Nil
  from assms(1) show ?case by (simp add: gaps_no_chars)
next
  case (Cons c cs)
  let ?d = "keystroke_delay e c (random_draw en k)"
  have d: "0.003 \<le> ?d" using assms(2) by (rule keystroke_delay_floor)
  have unfold: "gaps acc (char_events e en ses k (c # cs) @ rest)
        = (case acc of None \<Rightarrow> [] | Some a \<Rightarrow> [a])
          @ gaps (Some ?d) (char_events e en ses (Suc k) cs @ rest)"
    by simp
  from Cons.IH [of "Some ?d" "Suc k"] d
  have ih: "length (gaps (Some ?d) (char_events e en ses (Suc k) cs @ rest))
              = (if cs = [] then 0 else length cs)"
    "\<forall>x \<in> set (gaps (Some ?d) (char_events e en ses (Suc k) cs @ rest)). 0.003 \<le> x"
    by (simp_all split: if_splits)
  show ?case
    unfolding unfold using ih by (cases acc) auto
qed

lemma gaps_expected:
  assumes "0.003 \<le> base_delay e"
  shows "length (gaps None (expected_trace e en ses)) = length (s_text ses) - 1"
    and "\<forall>d \<in> set (gaps None (expected_trace e en ses)). 0.003 \<le> d"
proof -
  let ?rest = "(if s_press_enter ses then [Sleep 0.08, Press Enter, Release Enter] else [])
     @ (if s_on_done ses then [OnDone] else [])"
  have r: "typed_chars ?rest = []" by (simp add: obs_Cons obs_simps)
  have "gaps None (expected_trace e en ses)
        = gaps None (char_events e en ses 0 (s_text ses) @ ?rest)"
    by (simp add: expected_trace_def)
  with gaps_char_events [OF r assms, of None en ses 0 "s_text ses"]
  show "length (gaps None (expected_trace e en ses)) = length (s_text ses) - 1"
    and "\<forall>d \<in> set (gaps None (expected_trace e en ses)). 0.003 \<le> d"
    by simp_all
qed

lemma keystroke_delay_cong:
  "base_delay e = base_delay e' \<Longrightarrow> humanize e = humanize e'
   \<Longrightarrow> keystroke_delay e c u = keystroke_delay e' c u"
  by (simp add: keystroke_delay_def)

lemma char_events_cong:
  assumes "base_delay e = base_delay e'" and "humanize e = humanize e'"
    and "s_on_char ses = s_on_char ses'"
  shows "char_events e en ses k cs = char_events e' en ses' k cs"
  by (induction cs arbitrary: k)
     (simp_all add: keystroke_delay_cong [OF assms(1) assms(2)] assms(3))

subsection \<open>Reachable engine states\<close>

lemma act_base_delay: "base_delay (fst (act en ses a (e, w))) = base_delay e"
  by (cases a; cases "w_pc w")
     (simp_all add: step_defs stop_set_def stop_clear_typing_def Let_def split: list.splits)

lemma api_state_base_delay: "api_state e \<Longrightarrow> 0.003 \<le> base_delay e"
proof (induction rule: api_state.induct)
  case init
  show ?case by (simp add: engine_init_def SPEED_PRESETS_def str_def)
next
  case (speed e preset_name)
  show ?case by (simp add: set_speed_def dict_get_def SPEED_PRESETS_def)
next
  case (speed_value e delay)
  show ?case by (simp add: set_speed_value_def)
next
  case (toggled e b)
  then show ?case by simp
next
  case (typing e t pe db oc od)
  then show ?case by (simp add: type_text_def begin_typing_def)
next
  case (acted e en ses a w)
  then show ?case by (simp only: act_base_delay)
qed

section \<open>Lemmas on the storage\<close>

lemma traverse_map:
  assumes "\<And>i x. x \<in> set xs \<Longrightarrow> f i (h x) = Inr (g x)"
  shows "traverse f k (map h xs) = Inr (map g xs)"
  using assms by (induction xs arbitrary: k) simp_all

lemma pop_role_step_to_dict: "pop_role (step_to_dict st) = Inr (step_to_dict st)"
  by (simp add: step_to_dict_def str_def)

lemma step_of_step_to_dict: "step_of u (step_to_dict st) = Inr st"
  by (simp add: step_to_dict_def Step_init_def step_fields_def dict_get_def str_def)

lemma pop_role_legacy: "pop_role (legacy_step_to_dict pos role st) = Inr (step_to_dict st)"
proof -
  obtain kvs where kvs: "step_to_dict st = PDict kvs"
    and free: "filter (\<lambda>(k, v). k \<noteq> str ''role'') kvs = kvs"
    by (simp add: step_to_dict_def str_def)
  have "filter (\<lambda>(k, v). k \<noteq> str ''role'')
          (take (pos st) kvs @ [(str ''role'', role st)] @ drop (pos st) kvs)
        = filter (\<lambda>(k, v). k \<noteq> str ''role'') (take (pos st) kvs)
          @ filter (\<lambda>(k, v). k \<noteq> str ''role'') (drop (pos st) kvs)"
    by simp
  also have "\<dots> = filter (\<lambda>(k, v). k \<noteq> str ''role'') (take (pos st) kvs @ drop (pos st) kvs)"
    by (simp only: filter_append)
  also have "\<dots> = kvs" by (simp only: append_take_drop_id free)
  finally show ?thesis
    by (simp add: legacy_step_to_dict_def kvs)
qed

lemma steps_round_trip:
  "traverse (\<lambda>j. pop_role) 0 (map step_to_dict sts) = Inr (map step_to_dict sts)"
  "traverse (\<lambda>j. pop_role) 0 (map (legacy_step_to_dict pos role) sts) = Inr (map step_to_dict sts)"
  "traverse (\<lambda>j. step_of (uuid4 j)) 0 (map step_to_dict sts) = Inr (map (\<lambda>st. st) sts)"
  by (rule traverse_map, simp add: pop_role_step_to_dict pop_role_legacy step_of_step_to_dict)+

lemma dict_to_script_script_to_dict: "dict_to_script uuid4 (script_to_dict s) = Inr s"
  by (simp add: dict_to_script_def script_to_dict_def dict_get_def steps_round_trip str_def)

lemma dict_to_script_legacy: "dict_to_script uuid4 (legacy_script_to_dict pos role s) = Inr s"
  by (simp add: dict_to_script_def legacy_script_to_dict_def dict_get_def steps_round_trip str_def)

lemma traverse_succeeds:
  assumes "\<And>i x. x \<in> set xs \<Longrightarrow> \<exists>y. f i x = Inr y \<and> Q y"
  shows "\<exists>ys. traverse f k xs = Inr ys \<and> list_all Q ys"
  using assms
proof (induction xs arbitrary: k)
  case Nil
  show ?case by simp
next
  case (Cons x xs)
  from Cons.prems [of x k] obtain y where y: "f k x = Inr y" "Q y" by auto
  from Cons.IH [of "Suc k"] Cons.prems obtain ys where
    ys: "traverse f (Suc k) xs = Inr ys" "list_all Q ys" by auto
  from y ys show ?case by simp
qed

lemma traverse_first_failure:
  assumes "\<And>i x. x \<in> set good \<Longrightarrow> \<exists>y. f i x = Inr y"
    and "\<And>i. f i bad = Inl ex"
  shows "traverse f k (good @ bad # rest) = Inl ex"
  using assms(1)
proof (induction good arbitrary: k)
  case Nil
  show ?case by (simp add: assms(2))
next
  case (Cons x good)
  from Cons.prems [of x k] obtain y where "f k x = Inr y" by auto
  moreover from Cons.IH [of "Suc k"] Cons.prems
  have "traverse f (Suc k) (good @ bad # rest) = Inl ex" by auto
  ultimately show ?case by simp
qed

lemma pop_role_step_ok:
  assumes "step_ok s"
  shows "\<exists>y. pop_role s = Inr y \<and> (\<exists>kvs. y = PDict kvs \<and> list_all (\<lambda>(k, v). k \<in> set step_fields) kvs)"
proof (cases s)
  case (PDict kvs)
  with assms have "list_all (\<lambda>(k, v). k \<in> set step_fields \<or> k = str ''role'') kvs" by simp
  then have "list_all (\<lambda>(k, v). k \<in> set step_fields) (filter (\<lambda>(k, v). k \<noteq> str ''role'') kvs)"
    by (induction kvs) auto
  with PDict show ?thesis by simp
qed (use assms in simp_all)

lemma step_of_stripped:
  assumes "\<exists>kvs. y = PDict kvs \<and> list_all (\<lambda>(k, v). k \<in> set step_fields) kvs"
  shows "\<exists>st. step_of u y = Inr st \<and> True"
  using assms by (auto simp: Step_init_def)

lemma steps_convert:
  assumes "list_all step_ok ss"
  shows "\<exists>stripped sts. traverse (\<lambda>j. pop_role) 0 ss = Inr stripped
           \<and> traverse (\<lambda>j. step_of (uuid4 j)) 0 stripped = Inr sts"
proof -
  from assms have "\<And>x. x \<in> set ss \<Longrightarrow> step_ok x"
    by (simp add: list_all_iff)
  then have "\<And>i x. x \<in> set ss \<Longrightarrow> \<exists>y. pop_role x = Inr y
      \<and> (\<exists>kvs. y = PDict kvs \<and> list_all (\<lambda>(k, v). k \<in> set step_fields) kvs)"
    by (rule pop_role_step_ok)
  from traverse_succeeds [of ss "\<lambda>j. pop_role", OF this, of 0]
  obtain stripped where s: "traverse (\<lambda>j. pop_role) 0 ss = Inr stripped"
    "list_all (\<lambda>y. \<exists>kvs. y = PDict kvs \<and> list_all (\<lambda>(k, v). k \<in> set step_fields) kvs) stripped"
    by blast
  from s(2) have "\<And>x. x \<in> set stripped \<Longrightarrow>
      \<exists>kvs. x = PDict kvs \<and> list_all (\<lambda>(k, v). k \<in> set step_fields) kvs"
    unfolding list_all_iff [of _ stripped] by blast
  then have "\<And>i x. x \<in> set stripped \<Longrightarrow> \<exists>st. step_of (uuid4 i) x = Inr st \<and> True"
    by (rule step_of_stripped)
  from traverse_succeeds [of stripped "\<lambda>j. step_of (uuid4 j)" "\<lambda>st. True", OF this, of 0]
  obtain sts where "traverse (\<lambda>j. step_of (uuid4 j)) 0 stripped = Inr sts" by blast
  with s(1) show ?thesis by blast
qed

lemma dict_to_script_steps_ok:
  assumes "steps_ok (PDict kvs)"
  shows "\<exists>sts. (map_of kvs (str ''steps'') = None \<longrightarrow> sts = [])
     \<and> dict_to_script uuid4 (PDict kvs)
       = (case map_of kvs (str ''id'') of None \<Rightarrow> Inl KeyError | Some i \<Rightarrow>
          case map_of kvs (str ''name'') of None \<Rightarrow> Inl KeyError | Some n \<Rightarrow>
          Inr \<lparr>script_id = i, script_name = n,
               script_description = dict_get kvs (str ''description'') (PStr (str '''')),
               script_steps = sts,
               script_created_at = dict_get kvs (str ''created_at'') (PStr (str '''')),
               script_updated_at = dict_get kvs (str ''updated_at'') (PStr (str ''''))\<rparr>)"
proof (cases "map_of kvs (str ''steps'')")
  case None
  then show ?thesis
    by (intro exI [of _ "[]"]) (simp add: dict_to_script_def dict_get_def split: option.splits)
next
  case (Some v)
  with assms obtain ss where v: "v = PList ss" and ok: "list_all step_ok ss"
    by (cases v) simp_all
  from steps_convert [OF ok, of uuid4] obtain stripped sts where
    "traverse (\<lambda>j. pop_role) 0 ss = Inr stripped"
    "traverse (\<lambda>j. step_of (uuid4 j)) 0 stripped = Inr sts"
    by blast
  with Some v show ?thesis
    by (intro exI [of _ sts]) (simp add: dict_to_script_def dict_get_def split: option.splits)
qed

lemma dict_to_script_record_ok:
  assumes "record_ok d"
  shows "\<exists>s. dict_to_script uuid4 d = Inr s"
proof (cases d)
  case (PDict kvs)
  with assms have "steps_ok (PDict kvs)" and "map_of kvs (str ''id'') \<noteq> None"
    and "map_of kvs (str ''name'') \<noteq> None"
    by (simp_all add: record_ok_def)
  with dict_to_script_steps_ok [of kvs uuid4] PDict show ?thesis by auto
qed (use assms in \<open>simp_all add: record_ok_def\<close>)

lemma dict_to_script_missing_key:
  assumes "steps_ok d" and "missing_required_key d"
  shows "dict_to_script uuid4 d = Inl KeyError"
proof (cases d)
  case (PDict kvs)
  with assms dict_to_script_steps_ok [of kvs uuid4] show ?thesis
    by (auto split: option.splits)
qed (use assms in simp_all)

lemma save_encodable:
  "encodable (PList (map script_to_dict scripts))
   \<Longrightarrow> save scripts dk = (None, Holds (PList (map script_to_dict scripts)))"
  by (simp add: save_def)

lemma load_saved_value:
  "load uuid4 (Holds (PList (map script_to_dict scripts)))
   = (Inr scripts, Holds (PList (map script_to_dict scripts)))"
proof -
  have "traverse (\<lambda>i. dict_to_script (uuid4 i)) 0 (map script_to_dict scripts)
        = Inr (map (\<lambda>s. s) scripts)"
    by (rule traverse_map) (simp add: dict_to_script_script_to_dict)
  then show ?thesis by (simp add: load_def)
qed

lemma load_legacy_value:
  "fst (load uuid4 (Holds (PList (map (legacy_script_to_dict pos role) scripts)))) = Inr scripts"
proof -
  have "traverse (\<lambda>i. dict_to_script (uuid4 i)) 0 (map (legacy_script_to_dict pos role) scripts)
        = Inr (map (\<lambda>s. s) scripts)"
    by (rule traverse_map) (simp add: dict_to_script_legacy)
  then show ?thesis by (simp add: load_def)
qed

section \<open>Lemmas on the dispatch\<close>

lemma preview_str:
  "(case step_text st of PStr s \<Rightarrow> True | _ \<Rightarrow> False) \<Longrightarrow> \<exists>p. preview st n = Inr p"
  by (cases "step_text st") (simp_all add: preview_def Let_def)

lemma refresh_step_list_ok:
  assumes "selected_script a = Some script" and "texts_are_str script"
  shows "refresh_step_list a = None"
proof -
  from assms(2) have "\<And>i st. st \<in> set (script_steps script) \<Longrightarrow> \<exists>p. preview st 48 = Inr p \<and> True"
    by (simp add: texts_are_str_def list_all_iff preview_str)
  from traverse_succeeds [of "script_steps script" "\<lambda>idx st. preview st 48" "\<lambda>p. True", OF this, of 0]
  obtain ps where "traverse (\<lambda>idx st. preview st 48) 0 (script_steps script) = Inr ps"
    by blast
  with assms(1) show ?thesis by (simp add: refresh_step_list_def)
qed

lemma update_runner_state_ok:
  assumes "selected_script a = Some script" and "texts_are_str script"
    and "0 \<le> demo_step_idx a"
  shows "update_runner_state a = None"
proof -
  have r: "refresh_step_list a = None" using assms(1,2) by (rule refresh_step_list_ok)
  show ?thesis
  proof (cases "demo_running a \<and> demo_step_idx a < int (length (script_steps script))")
    case False
    with assms(1) r show ?thesis by (auto simp: update_runner_state_def Let_def)
  next
    case True
    let ?st = "script_steps script ! nat (demo_step_idx a)"
    from True assms(3) have idx: "list_index (script_steps script) (demo_step_idx a) = Inr ?st"
      by (simp add: list_index_def Let_def)
    from True assms(3) have "nat (demo_step_idx a) < length (script_steps script)" by arith
    then have "?st \<in> set (script_steps script)" by (rule nth_mem)
    with assms(2) have "case step_text ?st of PStr s \<Rightarrow> True | _ \<Rightarrow> False"
      by (simp add: texts_are_str_def list_all_iff)
    then obtain p where "preview ?st 70 = Inr p" using preview_str by blast
    with True assms(1) idx r show ?thesis
      by (simp add: update_runner_state_def Let_def)
  qed
qed

text \<open>
  The condition on the step texts is needed: when the text of a step is not a string (here
  the number 5, in the second step), the redrawing raises after the increment, and no
  session is started.
\<close>

lemma type_next_step_redraw_raises:
  "type_next_step
     (demo_app\<lparr>demo_step_idx := 0,
        selected_script := Some \<lparr>script_id = PStr (str ''s''), script_name = PStr (str ''Demo''),
          script_description = PStr (str ''''),
          script_steps = [\<lparr>step_id = PStr (str ''a''), step_text = PStr (str ''Hello''),
                            step_press_enter = PBool True, step_delay_before = PFloat 0\<rparr>,
                          \<lparr>step_id = PStr (str ''b''), step_text = PInt 5,
                            step_press_enter = PBool True, step_delay_before = PFloat 0\<rparr>],
          script_created_at = PStr (str ''''), script_updated_at = PStr (str '''')\<rparr>\<rparr>)
   = (demo_app\<lparr>demo_step_idx := 1,
        selected_script := Some \<lparr>script_id = PStr (str ''s''), script_name = PStr (str ''Demo''),
          script_description = PStr (str ''''),
          script_steps = [\<lparr>step_id = PStr (str ''a''), step_text = PStr (str ''Hello''),
                            step_press_enter = PBool True, step_delay_before = PFloat 0\<rparr>,
                          \<lparr>step_id = PStr (str ''b''), step_text = PInt 5,
                            step_press_enter = PBool True, step_delay_before = PFloat 0\<rparr>],
          script_created_at = PStr (str ''''), script_updated_at = PStr (str '''')\<rparr>\<rparr>,
      Some AttributeError)"
  by (simp add: demo_app_def type_next_step_def update_runner_state_def refresh_step_list_def
        preview_def list_index_def Let_def)

section \<open>Properties of the typing engine\<close>

subsection \<open>An uncancelled session\<close>

text \<open>
  Claim C1. A call \<open>type_text(text, press_enter, delay_before, on_char, on_done)\<close> on an
  engine configured through its API, with a non-negative \<open>delay_before\<close>, whose session is
  never cancelled and in which no external call fails, exits (within
  \<open>5 * len(text) + 12\<close> steps) having produced exactly the expected events for these
  arguments: the characters of \<open>text\<close>, one event each, in input order; between consecutive
  characters a sleep of at least 0.003 seconds; then, after all the characters, one Enter
  press and release if and only if \<open>press_enter\<close> is true; and \<open>on_done\<close> invoked exactly
  once, as the last event, when it is provided.
\<close>

theorem type_text_uncancelled:
  assumes api: "api_state e0"
    and call: "(e, ses) = type_text e0 text (Some press_enter) (Some delay_before) on_char on_done"
    and ok: "\<forall>p i. \<not> raises en p i"
    and db: "0 \<le> delay_before"
    and n: "5 * length text + 12 \<le> n"
    and final: "(e', w') = run en ses (replicate n Worker) (start (e, ses))"
  shows "w_pc w' = Exited \<and> \<not> w_failed w' \<and> \<not> is_typing e'
         \<and> w_trace w'
             = expected_trace e0 en
                 \<lparr>s_text = text, s_press_enter = press_enter, s_delay_before = delay_before,
                  s_on_char = on_char, s_on_done = on_done\<rparr>
         \<and> typed_chars (w_trace w') = text
         \<and> length (gaps None (w_trace w')) = length text - 1
         \<and> (\<forall>d \<in> set (gaps None (w_trace w')). 0.003 \<le> d)
         \<and> enter_events (w_trace w') = (if press_enter then [Press Enter, Release Enter] else [])
         \<and> (press_enter \<longrightarrow>
               (\<exists>t. w_trace w' = t @ [Sleep 0.08, Press Enter, Release Enter]
                          @ (if on_done then [OnDone] else [])
                    \<and> typed_chars t = text))
         \<and> on_done_calls (w_trace w') = (if on_done then 1 else 0)
         \<and> (on_done \<longrightarrow> last (w_trace w') = OnDone)"
proof -
  let ?ses = "\<lparr>s_text = text, s_press_enter = press_enter, s_delay_before = delay_before,
                  s_on_char = on_char, s_on_done = on_done\<rparr>"
  from call have ses: "ses = ?ses"
    and e: "\<not> stop_flag e" "base_delay e = base_delay e0" "humanize e = humanize e0"
    by (simp_all add: type_text_def begin_typing_def)
  from api have bd0: "0.003 \<le> base_delay e0" by (rule api_state_base_delay)
  then have bd: "0.003 \<le> base_delay e" by (simp add: e)
  from db have db': "0 \<le> s_delay_before ses" by (simp add: ses)
  from n have "5 * length (s_text ses) + 12 \<le> n" by (simp add: ses)
  from uncancelled_run [OF ok db' bd e(1) this] final [symmetric]
  have w': "e' = e\<lparr>is_typing := False\<rparr>" "w_pc w' = Exited" "\<not> w_failed w'"
    "w_trace w' = expected_trace e en ses"
    by (auto simp: start_def)
  have same: "expected_trace e en ses = expected_trace e0 en ?ses"
    unfolding expected_trace_def ses
    by (simp add: char_events_cong [OF e(2) e(3), of ?ses ?ses])
  have tr: "w_trace w' = expected_trace e0 en ?ses"
    by (simp only: w'(4) same)
  have last: "on_done \<longrightarrow> last (w_trace w') = OnDone"
    by (simp add: tr expected_trace_def)
  have tail: "\<exists>t. w_trace w' = t @ [Sleep 0.08, Press Enter, Release Enter]
                          @ (if on_done then [OnDone] else [])
                    \<and> typed_chars t = text" if press_enter
  proof -
    let ?t = "[Sleep delay_before]
       @ (if caps_lock_on en then [Press CapsLock, Release CapsLock] else [])
       @ char_events e0 en ?ses 0 text"
    have "w_trace w' = ?t @ [Sleep 0.08, Press Enter, Release Enter]
                          @ (if on_done then [OnDone] else [])"
      using that by (simp add: tr expected_trace_def)
    moreover have "typed_chars ?t = text"
      by (simp add: typed_chars_append typed_chars_char_events obs_Cons obs_simps)
    ultimately show ?thesis by blast
  qed
  have obs: "typed_chars (w_trace w') = text"
    "enter_events (w_trace w') = (if press_enter then [Press Enter, Release Enter] else [])"
    "on_done_calls (w_trace w') = (if on_done then 1 else 0)"
    unfolding tr
    by (simp_all add: typed_chars_expected enter_events_expected on_done_calls_expected)
  have gp: "length (gaps None (w_trace w')) = length text - 1"
    "\<forall>d \<in> set (gaps None (w_trace w')). 0.003 \<le> d"
    unfolding tr using gaps_expected [OF bd0, of en ?ses] by simp_all
  from w'(1) have "\<not> is_typing e'" by simp
  with w'(2,3) tr obs gp last tail show ?thesis by blast
qed

theorem type_text_uncancelled_witness:
  "api_state engine_init
   \<and> 5 * length (str ''Hi'') + 12 \<le> (22::nat)
   \<and> w_trace (snd
       (run \<lparr>caps_lock_on = False, random_draw = (\<lambda>i. 1 / 2), raises = (\<lambda>p i. False)\<rparr>
         (snd (type_text engine_init (str ''Hi'') (Some True) (Some 0) False True))
         (replicate 22 Worker)
         (start (type_text engine_init (str ''Hi'') (Some True) (Some 0) False True))))
     = [Sleep 0, TypeChar 72, Sleep 0.0255, TypeChar 105, Sleep 0.0255,
        Sleep 0.08, Press Enter, Release Enter, OnDone]
   \<and> enter_events (w_trace (snd
       (run \<lparr>caps_lock_on = False, random_draw = (\<lambda>i. 1 / 2), raises = (\<lambda>p i. False)\<rparr>
         (snd (type_text engine_init (str ''Hi'') (Some False) (Some 0) False True))
         (replicate 22 Worker)
         (start (type_text engine_init (str ''Hi'') (Some False) (Some 0) False True))))) = []"
proof -
  define en where "en = \<lparr>caps_lock_on = False, random_draw = (\<lambda>i::nat. 1 / 2 :: real),
    raises = (\<lambda>(p::pc) (i::nat). False)\<rparr>"
  define call where "call = (\<lambda>b. type_text engine_init (str ''Hi'') (Some b) (Some 0) False True)"
  define r where "r = (\<lambda>b. run en (snd (call b)) (replicate 22 Worker) (start (call b)))"
  have h1: "(fst (call b), snd (call b))
            = type_text engine_init (str ''Hi'') (Some b) (Some 0) False True" for b
    by (simp add: call_def)
  have h2: "\<forall>p i. \<not> raises en p i" by (simp add: en_def)
  have h3: "(0::real) \<le> 0" by simp
  have h4: "5 * length (str ''Hi'') + 12 \<le> (22::nat)" by (simp add: str_def)
  have h5: "(fst (r b), snd (r b))
            = run en (snd (call b)) (replicate 22 Worker) (start (fst (call b), snd (call b)))" for b
    by (simp add: r_def)
  from type_text_uncancelled [OF api_state.init h1 h2 h3 h4 h5, of True]
  have "w_trace (snd (r True)) = expected_trace engine_init en
      \<lparr>s_text = str ''Hi'', s_press_enter = True, s_delay_before = 0,
       s_on_char = False, s_on_done = True\<rparr>"
    by blast
  also have "\<dots> = [Sleep 0, TypeChar 72, Sleep 0.0255, TypeChar 105, Sleep 0.0255,
        Sleep 0.08, Press Enter, Release Enter, OnDone]"
    by (simp add: expected_trace_def en_def str_def keystroke_delay_def
          engine_init_def SPEED_PRESETS_def pause_chars_def uniform_def)
  finally have a: "w_trace (snd (r True)) = [Sleep 0, TypeChar 72, Sleep 0.0255, TypeChar 105,
        Sleep 0.0255, Sleep 0.08, Press Enter, Release Enter, OnDone]" .
  from type_text_uncancelled [OF api_state.init h1 h2 h3 h4 h5, of False]
  have "enter_events (w_trace (snd (r False)))
        = (if False then [Press Enter, Release Enter] else [])"
    by blast
  then have b: "enter_events (w_trace (snd (r False))) = []"
    by simp
  note a' = a [unfolded r_def call_def en_def]
  note b' = b [unfolded r_def call_def en_def]
  from api_state.init h4 a' b' show ?thesis
    by (intro conjI)
qed

subsection \<open>Speed presets\<close>

text \<open>
  Claim C7. The presets map Slow, Normal, Fast and "Very Fast" to 0.065, 0.040, 0.022 and
  0.010 seconds; \<open>set_speed\<close> sets \<open>base_delay\<close> to the preset of a recognised name and to
  0.022 for any other name; \<open>set_speed_value\<close> sets it to \<open>max(0.003, seconds)\<close> for every
  input. Neither touches another attribute of the engine.
\<close>

theorem speed_presets_and_setters:
  "map_of SPEED_PRESETS (str ''Slow'') = Some 0.065
   \<and> map_of SPEED_PRESETS (str ''Normal'') = Some 0.040
   \<and> map_of SPEED_PRESETS (str ''Fast'') = Some 0.022
   \<and> map_of SPEED_PRESETS (str ''Very Fast'') = Some 0.010
   \<and> (\<forall>v. map_of SPEED_PRESETS name = Some v \<longrightarrow> set_speed name e = e\<lparr>base_delay := v\<rparr>)
   \<and> (name \<notin> {str ''Slow'', str ''Normal'', str ''Fast'', str ''Very Fast''}
        \<longrightarrow> set_speed name e = e\<lparr>base_delay := 0.022\<rparr>)
   \<and> set_speed_value seconds e = e\<lparr>base_delay := max 0.003 seconds\<rparr>"
  by (simp add: SPEED_PRESETS_def set_speed_def set_speed_value_def dict_get_def str_def)

theorem speed_presets_and_setters_witness:
  "set_speed (str ''Slow'') engine_init = engine_init\<lparr>base_delay := 0.065\<rparr>
   \<and> str ''Turbo'' \<notin> {str ''Slow'', str ''Normal'', str ''Fast'', str ''Very Fast''}
   \<and> set_speed (str ''Turbo'') engine_init = engine_init\<lparr>base_delay := 0.022\<rparr>
   \<and> base_delay (set_speed_value 0.001 engine_init) = 0.003"
proof -
  have unknown: "str ''Turbo'' \<notin> {str ''Slow'', str ''Normal'', str ''Fast'', str ''Very Fast''}"
    by (simp add: str_def)
  have slow: "map_of SPEED_PRESETS (str ''Slow'') = Some 0.065"
    by (simp add: SPEED_PRESETS_def)
  from speed_presets_and_setters [of "str ''Slow''" engine_init "0.001"] slow
  have a: "set_speed (str ''Slow'') engine_init = engine_init\<lparr>base_delay := 0.065\<rparr>"
    by blast
  from speed_presets_and_setters [of "str ''Turbo''" engine_init "0.001"] unknown
  have b: "set_speed (str ''Turbo'') engine_init = engine_init\<lparr>base_delay := 0.022\<rparr>"
    and c: "set_speed_value 0.001 engine_init = engine_init\<lparr>base_delay := max 0.003 0.001\<rparr>"
    by blast+
  from c have "base_delay (set_speed_value 0.001 engine_init) = 0.003"
    by simp
  with a b unknown show ?thesis by blast
qed

subsection \<open>Humanised delays\<close>

text \<open>
  Claim C8. With humanisation enabled, the delay slept after a character is
  \<open>max(0.003, base_delay + offset)\<close>, where the offset, drawn with \<open>random.uniform\<close>, lies in
  \<open>[0.01, 0.05]\<close> for a space, \<open>.\<close>, \<open>,\<close>, \<open>!\<close>, \<open>?\<close>, \<open>;\<close>, \<open>:\<close> or a newline and in
  \<open>[-0.008, 0.015]\<close> for any other character; with humanisation disabled the delay is
  \<open>base_delay\<close>. This is the delay the worker sleeps at line 103.
\<close>

theorem keystroke_delay_humanized:
  assumes "0 \<le> u" and "u < 1"
  shows "(humanize e \<longrightarrow>
            (\<exists>offset. keystroke_delay e char u = max 0.003 (base_delay e + offset)
               \<and> (if char \<in> {of_char CHR '' '', of_char CHR ''.'', of_char CHR '','',
                                of_char CHR ''!'', of_char CHR ''?'', of_char CHR '';'',
                                of_char CHR '':'', 10}
                   then 0.01 \<le> offset \<and> offset \<le> 0.05
                   else - 0.008 \<le> offset \<and> offset \<le> 0.015)))
         \<and> (\<not> humanize e \<longrightarrow> keystroke_delay e char u = base_delay e)
         \<and> (w_pc w = L94 \<and> w_char w = char \<and> random_draw en (w_i w) = u
              \<and> \<not> raises en L94 (w_i w) \<and> 0 \<le> keystroke_delay e char u
            \<longrightarrow> worker_step en ses (e, w)
                  = (e, w\<lparr>w_trace := w_trace w @ [Sleep (keystroke_delay e char u)], w_pc := L83\<rparr>))"
proof (intro conjI impI)
  assume h: "humanize e"
  let ?P = "char \<in> set pause_chars"
  let ?off = "if ?P then uniform 0.01 0.05 u else uniform (- 0.008) 0.015 u"
  have "keystroke_delay e char u = max 0.003 (base_delay e + ?off)"
    using h by (simp add: keystroke_delay_def Let_def)
  moreover have "0.01 \<le> uniform 0.01 0.05 u \<and> uniform 0.01 0.05 u \<le> 0.05"
    using assms by (intro uniform_bounds) simp_all
  moreover have "- 0.008 \<le> uniform (- 0.008) 0.015 u \<and> uniform (- 0.008) 0.015 u \<le> 0.015"
    using assms by (intro uniform_bounds) simp_all
  ultimately show "\<exists>offset. keystroke_delay e char u = max 0.003 (base_delay e + offset)
               \<and> (if char \<in> {of_char CHR '' '', of_char CHR ''.'', of_char CHR '','',
                                of_char CHR ''!'', of_char CHR ''?'', of_char CHR '';'',
                                of_char CHR '':'', 10}
                   then 0.01 \<le> offset \<and> offset \<le> 0.05
                   else - 0.008 \<le> offset \<and> offset \<le> 0.015)"
    unfolding pause_chars_set [symmetric] by (intro exI [of _ ?off]) simp
next
  assume "\<not> humanize e"
  then show "keystroke_delay e char u = base_delay e"
    by (simp add: keystroke_delay_def)
next
  assume "w_pc w = L94 \<and> w_char w = char \<and> random_draw en (w_i w) = u
              \<and> \<not> raises en L94 (w_i w) \<and> 0 \<le> keystroke_delay e char u"
  then show "worker_step en ses (e, w)
                  = (e, w\<lparr>w_trace := w_trace w @ [Sleep (keystroke_delay e char u)], w_pc := L83\<rparr>)"
    by (simp add: step_defs)
qed

theorem keystroke_delay_humanized_witness:
  "(0::real) \<le> 1 / 2 \<and> (1 / 2 :: real) < 1
   \<and> keystroke_delay engine_init (of_char CHR ''.'') (1 / 2) = 0.052
   \<and> keystroke_delay engine_init (of_char CHR ''a'') 0 = 0.014
   \<and> keystroke_delay (engine_init\<lparr>humanize := False\<rparr>) (of_char CHR ''a'') (1 / 2) = 0.022"
proof -
  have u: "(0::real) \<le> 1 / 2" "(1 / 2 :: real) < 1" by simp_all
  from keystroke_delay_humanized [OF u, of "engine_init\<lparr>humanize := False\<rparr>" "of_char CHR ''a''"]
  have "keystroke_delay (engine_init\<lparr>humanize := False\<rparr>) (of_char CHR ''a'') (1 / 2)
        = base_delay (engine_init\<lparr>humanize := False\<rparr>)"
    by (simp add: engine_init_def)
  then have "keystroke_delay (engine_init\<lparr>humanize := False\<rparr>) (of_char CHR ''a'') (1 / 2) = 0.022"
    by (simp add: engine_init_def SPEED_PRESETS_def str_def)
  moreover have "keystroke_delay engine_init (of_char CHR ''.'') (1 / 2) = 0.052"
    by (simp add: keystroke_delay_def engine_init_def SPEED_PRESETS_def str_def pause_chars_def
          uniform_def)
  moreover have "keystroke_delay engine_init (of_char CHR ''a'') 0 = 0.014"
    by (simp add: keystroke_delay_def engine_init_def SPEED_PRESETS_def str_def pause_chars_def
          uniform_def)
  ultimately show ?thesis by simp
qed

subsection \<open>Cancellation\<close>

text \<open>
  Claim C2, as stated, fails: the stop signal is one \<open>threading.Event\<close> of the engine
  (line 42), shared by all its sessions, and the next \<open>type_text\<close> clears it (line 72).
  A session typing "abc" is stopped after its first character; \<open>stop()\<close> returns with
  \<open>is_typing\<close> false; the caller then calls \<open>type_text\<close> again before the cancelled worker
  has looked at the signal. That worker goes on: it types all three characters and the
  trailing Enter.
\<close>

theorem stop_then_type_text_counterexample:
  "length (typed_chars (w_trace (snd
      (run quiet_env (snd abc_call) (replicate 5 Worker) (start abc_call))))) = 1
   \<and> 1 < length (str ''abc'')
   \<and> \<not> is_typing (fst
      (run quiet_env (snd abc_call) (replicate 5 Worker @ [StopSet, StopClear]) (start abc_call)))
   \<and> typed_chars (w_trace (snd
      (run quiet_env (snd abc_call) (replicate 30 Worker)
        (type_text_again (str ''x'') None None False False
          (run quiet_env (snd abc_call) (replicate 5 Worker @ [StopSet, StopClear])
            (start abc_call)))))) = str ''abc''
   \<and> enter_events (w_trace (snd
      (run quiet_env (snd abc_call) (replicate 30 Worker)
        (type_text_again (str ''x'') None None False False
          (run quiet_env (snd abc_call) (replicate 5 Worker @ [StopSet, StopClear])
            (start abc_call)))))) = [Press Enter, Release Enter]"
  by (simp add: abc_call_def quiet_env_def type_text_again_def run_def type_text_def
        begin_typing_def start_def worker_init_def engine_init_def str_def SPEED_PRESETS_def
        eval_nat_numeral step_defs typed_chars_def enter_events_def stop_set_def
        stop_clear_typing_def keystroke_delay_def pause_chars_def uniform_def)

text \<open>
  Claim C2, amended. A session started by \<open>type_text\<close> runs alone for \<open>a\<close> worker steps, at
  which moment \<open>N\<close> characters have been typed and the text has more. The caller then
  executes \<open>stop()\<close>: it sets the signal, the worker may take any number \<open>b\<close> of steps, and
  the caller sets \<open>is_typing\<close> to false and returns (without interleaving this is the
  function \<open>stop\<close>). As long as \<open>type_text\<close> is not called again on the engine, that is,
  for every further schedule of worker steps and \<open>stop()\<close> statements and whatever the
  environment does: \<open>is_typing\<close> is false when \<open>stop()\<close> returns and stays false, the
  session has typed \<open>N\<close> or \<open>N + 1\<close> characters, a prefix of the text, it has emitted no
  Enter event, and it has exited once the worker has taken \<open>5 * len(text) + 12\<close> steps.
\<close>

theorem stop_mid_session:
  assumes call: "(e, ses) = type_text e0 text press_enter delay_before on_char on_done"
    and c1: "c1 = run en ses (replicate a Worker) (start (e, ses))"
    and N: "length (typed_chars (w_trace (snd c1))) = N" "N < length text"
    and c2: "c2 = run en ses (StopSet # replicate b Worker @ [StopClear]) c1"
    and c3: "c3 = run en ses sched c2"
  shows "\<not> is_typing (fst c2) \<and> \<not> is_typing (fst c3)
         \<and> (b = 0 \<longrightarrow> fst c2 = stop (fst c1))
         \<and> length (typed_chars (w_trace (snd c3))) \<in> {N, N + 1}
         \<and> typed_chars (w_trace (snd c3)) = take (length (typed_chars (w_trace (snd c3)))) text
         \<and> enter_events (w_trace (snd c3)) = []
         \<and> (5 * length text + 12 \<le> a + b + workers sched \<longrightarrow> w_pc (snd c3) = Exited)"
proof -
  let ?c0 = "start (e, ses)"
  from call have tx: "s_text ses = text" and e: "\<not> stop_flag e"
    by (simp_all add: type_text_def begin_typing_def)
  have l1: "loop_inv ses c1" and k1: "complete_inv ses c1"
    unfolding c1 by (simp_all add: loop_inv_run complete_inv_run loop_inv_start complete_inv_start)
  have f1: "\<not> stop_flag (fst c1)"
    unfolding c1 using e by (simp add: workers_only_keep_flag start_def)
  have s1: "stopped_inv N (act en ses StopSet c1)"
    using l1 k1 f1 N by (intro stopped_inv_established) (simp_all add: tx)
  have c2': "c2 = act en ses StopClear (run en ses (replicate b Worker) (act en ses StopSet c1))"
    unfolding c2 by (simp add: run_Cons run_append run_Nil)
  have t2: "\<not> is_typing (fst c2)"
    unfolding c2' by (cases "run en ses (replicate b Worker) (act en ses StopSet c1)")
      (simp add: stop_clear_typing_def)
  then have t3: "\<not> is_typing (fst c3)"
    unfolding c3 by (rule not_typing_run)
  have st: "fst c2 = stop (fst c1)" if "b = 0"
    unfolding c2' that by (cases c1) (simp add: run_Nil stop_def)
  have "stopped_inv N c2"
    unfolding c2 using s1 by (simp add: run_Cons stopped_inv_run)
  then have s3: "stopped_inv N c3"
    unfolding c3 by (rule stopped_inv_run)
  have all: "c3 = run en ses (replicate a Worker @ StopSet # replicate b Worker @ [StopClear] @ sched) ?c0"
    unfolding c3 c2 c1 by (simp add: run_append run_Cons run_Nil)
  have p3: "prefix_inv ses c3"
    unfolding all by (simp add: prefix_inv_run loop_inv_start prefix_inv_start)
  have ex: "w_pc (snd c3) = Exited" if "5 * length text + 12 \<le> a + b + workers sched"
    unfolding all
  proof (rule run_exits)
    have "fuel (snd ?c0) = 12 + 5 * length text"
      by (simp add: start_def worker_init_def fuel_def tx)
    with that show "fuel (snd ?c0) \<le> workers (replicate a Worker @ StopSet # replicate b Worker @ [StopClear] @ sched)"
      by (simp add: workers_def)
  qed
  from s3 have "length (typed_chars (w_trace (snd c3))) \<in> {N, N + 1}"
    and "enter_events (w_trace (snd c3)) = []"
    by (cases c3; auto simp: stopped_inv_def)+
  moreover from p3 have "typed_chars (w_trace (snd c3)) = take (length (typed_chars (w_trace (snd c3)))) text"
    by (cases c3) (simp add: prefix_inv_def tx)
  ultimately show ?thesis using t2 t3 st ex by blast
qed

theorem stop_mid_session_witness:
  "length (typed_chars (w_trace (snd
      (run quiet_env (snd abc_call) (replicate 5 Worker) (start abc_call))))) = 1
   \<and> 1 < length (str ''abc'')
   \<and> 5 * length (str ''abc'') + 12 \<le> 5 + 3 + workers (replicate 19 Worker @ [StopSet, StopClear])
   \<and> w_pc (snd
      (run quiet_env (snd abc_call)
         (replicate 5 Worker @ StopSet # replicate 3 Worker @ [StopClear]
            @ replicate 19 Worker @ [StopSet, StopClear])
         (start abc_call))) = Exited
   \<and> enter_events (w_trace (snd
      (run quiet_env (snd abc_call)
         (replicate 5 Worker @ StopSet # replicate 3 Worker @ [StopClear]
            @ replicate 19 Worker @ [StopSet, StopClear])
         (start abc_call)))) = []"
proof -
  define c1 where "c1 = run quiet_env (snd abc_call) (replicate 5 Worker) (start abc_call)"
  define c2 where "c2 = run quiet_env (snd abc_call) (StopSet # replicate 3 Worker @ [StopClear]) c1"
  define c3 where "c3 = run quiet_env (snd abc_call) (replicate 19 Worker @ [StopSet, StopClear]) c2"
  have h1: "(fst abc_call, snd abc_call)
            = type_text engine_init (str ''abc'') (Some True) (Some 0) False False"
    by (simp add: abc_call_def)
  have h2: "c1 = run quiet_env (snd abc_call) (replicate 5 Worker) (start (fst abc_call, snd abc_call))"
    by (simp add: c1_def)
  have h3: "length (typed_chars (w_trace (snd c1))) = 1"
    unfolding c1_def abc_call_def quiet_env_def
    by (simp add: run_def type_text_def begin_typing_def start_def worker_init_def engine_init_def str_def
          SPEED_PRESETS_def eval_nat_numeral step_defs typed_chars_def)
  have h4: "1 < length (str ''abc'')"
    by (simp add: str_def)
  have all: "c3 = run quiet_env (snd abc_call)
      (replicate 5 Worker @ StopSet # replicate 3 Worker @ [StopClear]
         @ replicate 19 Worker @ [StopSet, StopClear])
      (start abc_call)"
    unfolding c3_def c2_def c1_def by (simp add: run_append run_Cons run_Nil)
  from stop_mid_session [OF h1 h2 h3 h4 c2_def c3_def]
  have "enter_events (w_trace (snd c3)) = []"
    and "5 * length (str ''abc'') + 12 \<le> 5 + 3 + workers (replicate 19 Worker @ [StopSet, StopClear])
         \<longrightarrow> w_pc (snd c3) = Exited"
    by blast+
  moreover have "5 * length (str ''abc'') + 12 \<le> 5 + 3 + workers (replicate 19 Worker @ [StopSet, StopClear])"
    by (simp add: str_def workers_def)
  ultimately show ?thesis
    using h3 h4 unfolding all c1_def by blast
qed

subsection \<open>Finalisation on every exit path\<close>

text \<open>
  Claim C3. Whatever the environment does (any external call may raise, at any point) and
  whatever the schedule (the caller may execute the statements of \<open>stop()\<close> at any moment),
  once the worker has taken \<open>5 * len(text) + 12\<close> steps it has exited, \<open>is_typing\<close> is false,
  and \<open>on_done\<close> has been invoked exactly once if it was provided (never otherwise), as
  the last event of the session.
\<close>

theorem worker_always_finalises:
  assumes call: "(e, ses) = type_text e0 text press_enter delay_before on_char on_done"
    and enough: "5 * length text + 12 \<le> workers sched"
    and final: "(e', w') = run en ses sched (start (e, ses))"
  shows "w_pc w' = Exited \<and> \<not> is_typing e'
         \<and> on_done_calls (w_trace w') = (if on_done then 1 else 0)
         \<and> (on_done \<longrightarrow> (\<exists>t. w_trace w' = t @ [OnDone]))"
proof -
  from call have ses: "s_text ses = text" "s_on_done ses = on_done"
    by (simp_all add: type_text_def begin_typing_def)
  have "fuel (snd (start (e, ses))) = 12 + 5 * length text"
    by (simp add: start_def worker_init_def fuel_def ses)
  with enough have "w_pc (snd (run en ses sched (start (e, ses)))) = Exited"
    by (intro run_exits) simp
  with final [symmetric] have pc: "w_pc w' = Exited" by simp
  have "fin_inv ses (run en ses sched (start (e, ses)))"
    by (simp add: fin_inv_run fin_inv_start)
  with final [symmetric] pc ses show ?thesis
    by (simp add: fin_inv_def)
qed

theorem worker_always_finalises_witness:
  "5 * length (str ''ab'') + 12 \<le> workers (replicate 5 Worker @ [StopSet, StopClear] @ replicate 17 Worker)
   \<and> on_done_calls (w_trace (snd
      (run \<lparr>caps_lock_on = True, random_draw = (\<lambda>i. 1 / 2), raises = (\<lambda>p i. p = L88 \<and> i = 1)\<rparr>
         (snd (type_text engine_init (str ''ab'') None None False True))
         (replicate 5 Worker @ [StopSet, StopClear] @ replicate 17 Worker)
         (start (type_text engine_init (str ''ab'') None None False True))))) = 1
   \<and> \<not> is_typing (fst
      (run \<lparr>caps_lock_on = True, random_draw = (\<lambda>i. 1 / 2), raises = (\<lambda>p i. p = L88 \<and> i = 1)\<rparr>
         (snd (type_text engine_init (str ''ab'') None None False True))
         (replicate 5 Worker @ [StopSet, StopClear] @ replicate 17 Worker)
         (start (type_text engine_init (str ''ab'') None None False True))))"
proof -
  define en where "en = \<lparr>caps_lock_on = True, random_draw = (\<lambda>i::nat. 1 / 2 :: real),
    raises = (\<lambda>(p::pc) (i::nat). p = L88 \<and> i = 1)\<rparr>"
  define call where "call = type_text engine_init (str ''ab'') None None False True"
  define sched where "sched = replicate 5 Worker @ [StopSet, StopClear] @ replicate 17 Worker"
  define r where "r = run en (snd call) sched (start call)"
  have h1: "(fst call, snd call) = type_text engine_init (str ''ab'') None None False True"
    by (simp add: call_def)
  have h2: "5 * length (str ''ab'') + 12 \<le> workers sched"
    by (simp add: sched_def workers_def str_def)
  have h3: "(fst r, snd r) = run en (snd call) sched (start (fst call, snd call))"
    by (simp add: r_def)
  from worker_always_finalises [OF h1 h2 h3]
  have "on_done_calls (w_trace (snd r)) = 1" and "\<not> is_typing (fst r)"
    by simp_all
  with h2 show ?thesis
    unfolding r_def sched_def call_def en_def by blast
qed

section \<open>Properties of the storage\<close>

subsection \<open>Round trip\<close>

text \<open>
  Claim C5, as stated, fails: \<open>save\<close> writes strings as they are
  (\<open>ensure_ascii=False\<close>) to a UTF-8 file. For a script whose name holds the lone surrogate
  \<open>U+D800\<close>, \<open>save\<close> raises \<open>UnicodeEncodeError\<close> and leaves the beginning of the JSON text
  in the file; \<open>load\<close> then returns an empty collection, not the script.
\<close>

theorem save_load_surrogate_counterexample:
  "save [\<lparr>script_id = PStr (str ''s1''), script_name = PStr [0xD800],
          script_description = PStr (str ''''), script_steps = [],
          script_created_at = PStr (str ''''), script_updated_at = PStr (str '''')\<rparr>] NoFile
     = (Some UnicodeEncodeError, Unparsable)
   \<and> fst (load uuid_fixed (snd (save
        [\<lparr>script_id = PStr (str ''s1''), script_name = PStr [0xD800],
          script_description = PStr (str ''''), script_steps = [],
          script_created_at = PStr (str ''''), script_updated_at = PStr (str '''')\<rparr>] NoFile)))
     = Inr []"
  by (simp add: save_def load_def script_to_dict_def encodable_str_def str_def)

text \<open>
  Claim C5, amended. For every collection of scripts whose strings can all be encoded in
  UTF-8 (no surrogate code points), \<open>save\<close> succeeds and \<open>load\<close> afterwards returns the
  same collection: every field of every script and of every step, in the same order. And
  a file whose step objects carry a legacy \<open>role\<close> entry (anywhere in the object, with any
  value) loads without error, to the scripts of the same file without those entries; the
  loaded steps are values of \<open>Step\<close>, which has no \<open>role\<close> field.
\<close>

theorem save_load_round_trip:
  assumes "encodable (PList (map script_to_dict scripts))"
  shows "save scripts dk = (None, Holds (PList (map script_to_dict scripts)))
         \<and> load uuid4 (snd (save scripts dk)) = (Inr scripts, snd (save scripts dk))
         \<and> fst (load uuid4 (Holds (PList (map (legacy_script_to_dict pos role) scripts))))
             = Inr scripts"
  using assms by (simp add: save_encodable load_saved_value load_legacy_value)

theorem save_load_round_trip_witness:
  "encodable (PList (map script_to_dict
      [\<lparr>script_id = PStr (str ''s1''), script_name = PStr (str ''Demo''),
        script_description = PStr (str ''''),
        script_steps = [\<lparr>step_id = PStr (str ''a''), step_text = PStr (str ''Hello''),
                          step_press_enter = PBool True, step_delay_before = PFloat 0.3\<rparr>],
        script_created_at = PStr (str ''''), script_updated_at = PStr (str '''')\<rparr>]))
   \<and> fst (load uuid_fixed (snd (save
      [\<lparr>script_id = PStr (str ''s1''), script_name = PStr (str ''Demo''),
        script_description = PStr (str ''''),
        script_steps = [\<lparr>step_id = PStr (str ''a''), step_text = PStr (str ''Hello''),
                          step_press_enter = PBool True, step_delay_before = PFloat 0.3\<rparr>],
        script_created_at = PStr (str ''''), script_updated_at = PStr (str '''')\<rparr>] NoFile)))
     = Inr [\<lparr>script_id = PStr (str ''s1''), script_name = PStr (str ''Demo''),
        script_description = PStr (str ''''),
        script_steps = [\<lparr>step_id = PStr (str ''a''), step_text = PStr (str ''Hello''),
                          step_press_enter = PBool True, step_delay_before = PFloat 0.3\<rparr>],
        script_created_at = PStr (str ''''), script_updated_at = PStr (str '''')\<rparr>]"
proof -
  let ?scripts = "[\<lparr>script_id = PStr (str ''s1''), script_name = PStr (str ''Demo''),
        script_description = PStr (str ''''),
        script_steps = [\<lparr>step_id = PStr (str ''a''), step_text = PStr (str ''Hello''),
                          step_press_enter = PBool True, step_delay_before = PFloat 0.3\<rparr>],
        script_created_at = PStr (str ''''), script_updated_at = PStr (str '''')\<rparr>]"
  have h: "encodable (PList (map script_to_dict ?scripts))"
    by (simp add: script_to_dict_def step_to_dict_def encodable_str_def str_def)
  from save_load_round_trip [OF h, of NoFile uuid_fixed]
  have "load uuid_fixed (snd (save ?scripts NoFile)) = (Inr ?scripts, snd (save ?scripts NoFile))"
    by blast
  then have "fst (load uuid_fixed (snd (save ?scripts NoFile))) = Inr ?scripts"
    by simp
  with h show ?thesis by (rule conjI)
qed

subsection \<open>Malformed files\<close>

text \<open>
  Claim C6, as stated, fails: \<open>load\<close> catches \<open>JSONDecodeError\<close> and \<open>KeyError\<close> only. The file
  \<open>[{"name": "Demo", "steps": [{"text": "hi", "speed": 1}]}]\<close> has a record without the
  required key \<open>id\<close>, and loading it raises \<open>TypeError\<close>: the steps are converted before
  \<open>d["id"]\<close> is evaluated, and \<open>Step\<close> rejects the keyword \<open>speed\<close>.
\<close>

theorem load_malformed_counterexample:
  "malformed (Holds (PList [PDict
      [(str ''name'', PStr (str ''Demo'')),
       (str ''steps'', PList [PDict [(str ''text'', PStr (str ''hi'')),
                                     (str ''speed'', PInt 1)]])]]))
   \<and> fst (load uuid_fixed (Holds (PList [PDict
      [(str ''name'', PStr (str ''Demo'')),
       (str ''steps'', PList [PDict [(str ''text'', PStr (str ''hi'')),
                                     (str ''speed'', PInt 1)]])]])))
     = Inl TypeError"
  by (simp add: load_def dict_to_script_def dict_get_def Step_init_def step_fields_def str_def)

text \<open>
  Claim C6, amended. \<open>load\<close> returns an empty collection, and leaves the file as it is, when
  the file is not valid JSON, and when it holds a list of records in which every record
  before the first one lacking \<open>id\<close> or \<open>name\<close> converts, and that record is an object
  whose steps are absent or a list of objects with no other keys than the fields of
  \<open>Step\<close> and \<open>role\<close>.
\<close>

theorem load_malformed_amended:
  assumes "dk = Unparsable
     \<or> (\<exists>good bad rest. dk = Holds (PList (good @ bad # rest))
           \<and> list_all record_ok good \<and> steps_ok bad \<and> missing_required_key bad)"
  shows "load uuid4 dk = (Inr [], dk)"
  using assms
proof
  assume "dk = Unparsable"
  then show ?thesis by (simp add: load_def)
next
  assume "\<exists>good bad rest. dk = Holds (PList (good @ bad # rest))
           \<and> list_all record_ok good \<and> steps_ok bad \<and> missing_required_key bad"
  then obtain good bad rest where dk: "dk = Holds (PList (good @ bad # rest))"
    and good: "list_all record_ok good" and bad: "steps_ok bad" "missing_required_key bad"
    by blast
  from good have "\<And>i x. x \<in> set good \<Longrightarrow> \<exists>y. dict_to_script (uuid4 i) x = Inr y"
    by (simp add: list_all_iff dict_to_script_record_ok)
  moreover from bad have "\<And>i. dict_to_script (uuid4 i) bad = Inl KeyError"
    by (rule dict_to_script_missing_key)
  ultimately have "traverse (\<lambda>i. dict_to_script (uuid4 i)) 0 (good @ bad # rest) = Inl KeyError"
    by (rule traverse_first_failure)
  then show ?thesis by (simp add: load_def dk)
qed

theorem load_malformed_amended_witness:
  "load uuid_fixed Unparsable = (Inr [], Unparsable)
   \<and> list_all record_ok [PDict [(str ''id'', PStr (str ''a'')), (str ''name'', PStr (str ''First''))]]
   \<and> steps_ok (PDict [(str ''id'', PStr (str ''b'')), (str ''steps'', PList [PDict [(str ''role'', PNone)]])])
   \<and> missing_required_key (PDict [(str ''id'', PStr (str ''b'')), (str ''steps'', PList [PDict [(str ''role'', PNone)]])])
   \<and> fst (load uuid_fixed (Holds (PList
        [PDict [(str ''id'', PStr (str ''a'')), (str ''name'', PStr (str ''First''))],
         PDict [(str ''id'', PStr (str ''b'')), (str ''steps'', PList [PDict [(str ''role'', PNone)]])]])))
     = Inr []"
proof -
  let ?good = "[PDict [(str ''id'', PStr (str ''a'')), (str ''name'', PStr (str ''First''))]]"
  let ?bad = "PDict [(str ''id'', PStr (str ''b'')), (str ''steps'', PList [PDict [(str ''role'', PNone)]])]"
  have g: "list_all record_ok ?good"
    by (simp add: record_ok_def str_def)
  have b: "steps_ok ?bad" "missing_required_key ?bad"
    by (simp_all add: str_def)
  have u: "load uuid_fixed Unparsable = (Inr [], Unparsable)"
    using load_malformed_amended [of Unparsable uuid_fixed] by simp
  have "Holds (PList (?good @ ?bad # [])) = Holds (PList (?good @ ?bad # []))
        \<and> list_all record_ok ?good \<and> steps_ok ?bad \<and> missing_required_key ?bad"
    using g b by simp
  then have "\<exists>good bad rest. Holds (PList (?good @ ?bad # [])) = Holds (PList (good @ bad # rest))
           \<and> list_all record_ok good \<and> steps_ok bad \<and> missing_required_key bad"
    by blast
  then have "load uuid_fixed (Holds (PList (?good @ ?bad # []))) = (Inr [], Holds (PList (?good @ ?bad # [])))"
    by (intro load_malformed_amended) simp
  then have "fst (load uuid_fixed (Holds (PList (?good @ ?bad # [])))) = Inr []"
    by simp
  with u g b show ?thesis by simp
qed

subsection \<open>Missing file and optional keys\<close>

text \<open>
  Claim C10. When the data file does not exist, \<open>load\<close> returns an empty collection, raises
  nothing and leaves the file absent. When a script record is converted, the keys
  \<open>description\<close>, \<open>created_at\<close> and \<open>updated_at\<close> default to the empty string and \<open>steps\<close> to
  the empty list; \<open>id\<close> and \<open>name\<close> are required: without one of them the conversion of
  a record with well-formed steps raises \<open>KeyError\<close>.
\<close>

theorem load_missing_file_and_optional_keys:
  "load uuid4 NoFile = (Inr [], NoFile)
   \<and> (map_of kvs (str ''id'') = Some i \<and> map_of kvs (str ''name'') = Some n
        \<and> map_of kvs (str ''steps'') = None
      \<longrightarrow> dict_to_script u (PDict kvs)
          = Inr \<lparr>script_id = i, script_name = n,
                 script_description =
                   (case map_of kvs (str ''description'') of None \<Rightarrow> PStr (str '''') | Some v \<Rightarrow> v),
                 script_steps = [],
                 script_created_at =
                   (case map_of kvs (str ''created_at'') of None \<Rightarrow> PStr (str '''') | Some v \<Rightarrow> v),
                 script_updated_at =
                   (case map_of kvs (str ''updated_at'') of None \<Rightarrow> PStr (str '''') | Some v \<Rightarrow> v)\<rparr>)
   \<and> (steps_ok (PDict kvs)
        \<and> (map_of kvs (str ''id'') = None \<or> map_of kvs (str ''name'') = None)
      \<longrightarrow> dict_to_script u (PDict kvs) = Inl KeyError)"
proof (intro conjI impI)
  show "load uuid4 NoFile = (Inr [], NoFile)"
    by (simp add: load_def)
next
  assume a: "map_of kvs (str ''id'') = Some i \<and> map_of kvs (str ''name'') = Some n
        \<and> map_of kvs (str ''steps'') = None"
  then have "steps_ok (PDict kvs)" by simp
  from dict_to_script_steps_ok [OF this, of u] a
  show "dict_to_script u (PDict kvs)
          = Inr \<lparr>script_id = i, script_name = n,
                 script_description =
                   (case map_of kvs (str ''description'') of None \<Rightarrow> PStr (str '''') | Some v \<Rightarrow> v),
                 script_steps = [],
                 script_created_at =
                   (case map_of kvs (str ''created_at'') of None \<Rightarrow> PStr (str '''') | Some v \<Rightarrow> v),
                 script_updated_at =
                   (case map_of kvs (str ''updated_at'') of None \<Rightarrow> PStr (str '''') | Some v \<Rightarrow> v)\<rparr>"
    by (auto simp: dict_get_def)
next
  assume "steps_ok (PDict kvs)
        \<and> (map_of kvs (str ''id'') = None \<or> map_of kvs (str ''name'') = None)"
  then show "dict_to_script u (PDict kvs) = Inl KeyError"
    by (intro dict_to_script_missing_key) simp_all
qed

theorem load_missing_file_and_optional_keys_witness:
  "dict_to_script (uuid_fixed 0) (PDict [(str ''id'', PStr (str ''s1'')), (str ''name'', PStr (str ''Demo''))])
     = Inr \<lparr>script_id = PStr (str ''s1''), script_name = PStr (str ''Demo''),
            script_description = PStr (str ''''), script_steps = [],
            script_created_at = PStr (str ''''), script_updated_at = PStr (str '''')\<rparr>
   \<and> dict_to_script (uuid_fixed 0) (PDict [(str ''name'', PStr (str ''Demo''))]) = Inl KeyError"
proof -
  let ?kvs = "[(str ''id'', PStr (str ''s1'')), (str ''name'', PStr (str ''Demo''))]"
  let ?kvs' = "[(str ''name'', PStr (str ''Demo''))]"
  have a: "map_of ?kvs (str ''id'') = Some (PStr (str ''s1''))
        \<and> map_of ?kvs (str ''name'') = Some (PStr (str ''Demo''))
        \<and> map_of ?kvs (str ''steps'') = None"
    by (simp add: str_def)
  have opt: "map_of ?kvs (str ''description'') = None" "map_of ?kvs (str ''created_at'') = None"
    "map_of ?kvs (str ''updated_at'') = None"
    by (simp_all add: str_def)
  have b: "steps_ok (PDict ?kvs')
        \<and> (map_of ?kvs' (str ''id'') = None \<or> map_of ?kvs' (str ''name'') = None)"
    by (simp add: str_def)
  from load_missing_file_and_optional_keys
    [of uuid_fixed ?kvs "PStr (str ''s1'')" "PStr (str ''Demo'')" "uuid_fixed 0"] a
  have 1: "dict_to_script (uuid_fixed 0) (PDict ?kvs)
     = Inr \<lparr>script_id = PStr (str ''s1''), script_name = PStr (str ''Demo''),
            script_description = PStr (str ''''), script_steps = [],
            script_created_at = PStr (str ''''), script_updated_at = PStr (str '''')\<rparr>"
    by (simp only: opt option.case)
  from load_missing_file_and_optional_keys [of uuid_fixed ?kvs' PNone PNone "uuid_fixed 0"] b
  have 2: "dict_to_script (uuid_fixed 0) (PDict ?kvs') = Inl KeyError"
    by blast
  from 1 2 show ?thesis by (rule conjI)
qed

section \<open>Defaults\<close>



section \<open>Properties of the dispatch\<close>

text \<open>
  Claim C4, as stated, fails in its second half: the handler tests \<open>is_typing\<close> when the key
  is pressed, but the step is typed by a callback that runs 10 ms later and tests the step
  index only. In the armed demo at its last step (index 1 of 2), the trigger key is
  pressed, and pressed again before the first callback has run: the second press is
  observed with the demo running, \<open>is_typing\<close> false and the index within range, and it
  schedules a second callback. The first callback moves the index to 2 and starts a
  session; the second one finds the index out of range: the second press increments
  nothing and starts no session.
\<close>

theorem second_press_counterexample:
  "hotkey_key (on_global_key (F 2) demo_app) = F 2
   \<and> demo_running (on_global_key (F 2) demo_app)
   \<and> \<not> is_typing (typer (on_global_key (F 2) demo_app))
   \<and> demo_step_idx (on_global_key (F 2) demo_app) = 1
   \<and> length (script_steps (the (selected_script (on_global_key (F 2) demo_app)))) = 2
   \<and> scheduled (on_global_key (F 2) (on_global_key (F 2) demo_app))
       = [(10, TypeNextStep), (10, TypeNextStep)]
   \<and> demo_step_idx (fst (run_scheduled (on_global_key (F 2) (on_global_key (F 2) demo_app)))) = 2
   \<and> scheduled (fst (run_scheduled (on_global_key (F 2) (on_global_key (F 2) demo_app))))
       = [(10, TypeNextStep)]
   \<and> demo_step_idx (fst (run_scheduled (fst (run_scheduled
        (on_global_key (F 2) (on_global_key (F 2) demo_app)))))) = 2
   \<and> length (launched (fst (run_scheduled (fst (run_scheduled
        (on_global_key (F 2) (on_global_key (F 2) demo_app))))))) = 1"
  by (simp add: demo_app_def on_global_key_def run_scheduled_def type_next_step_def
        update_runner_state_def refresh_step_list_def preview_def list_index_def Let_def
        engine_init_def begin_typing_def str_def)

text \<open>
  Claim C4, amended. A key press observed while \<open>is_typing\<close> is true changes nothing: no
  callback is scheduled, no session is started, the step index stays. A press of the
  trigger key observed while the demo is running and \<open>is_typing\<close> is false schedules
  \<open>_type_next_step\<close> exactly once (after 10 ms). When \<open>_type_next_step\<close> runs in a state
  where the demo is running, the step index is within the steps of the selected script and
  the texts of its steps are strings, the step index is incremented by exactly 1 and
  exactly one call of \<open>type_text\<close> is made, with the fields of the step at the index before
  the increment; this is the case when the press met these conditions and its callback is
  the only one pending.
\<close>

theorem dispatch_on_trigger:
  "(is_typing (typer a) \<longrightarrow> on_global_key k a = a)
   \<and> (k = hotkey_key a \<and> demo_running a \<and> \<not> is_typing (typer a)
      \<longrightarrow> on_global_key k a = a\<lparr>scheduled := scheduled a @ [(10, TypeNextStep)]\<rparr>)
   \<and> (demo_running a' \<and> selected_script a' = Some script \<and> texts_are_str script
        \<and> 0 \<le> demo_step_idx a' \<and> demo_step_idx a' < int (length (script_steps script))
      \<longrightarrow> type_next_step a'
          = (a'\<lparr>demo_step_idx := demo_step_idx a' + 1,
                typer := begin_typing (typer a'),
                launched := launched a'
                  @ [\<lparr>call_text = step_text (script_steps script ! nat (demo_step_idx a')),
                      call_press_enter = step_press_enter (script_steps script ! nat (demo_step_idx a')),
                      call_delay_before = step_delay_before (script_steps script ! nat (demo_step_idx a'))\<rparr>]\<rparr>,
             None))
   \<and> (k = hotkey_key a \<and> demo_running a \<and> \<not> is_typing (typer a)
        \<and> selected_script a = Some script \<and> texts_are_str script
        \<and> 0 \<le> demo_step_idx a \<and> demo_step_idx a < int (length (script_steps script))
        \<and> scheduled a = []
      \<longrightarrow> run_scheduled (on_global_key k a)
          = (a\<lparr>demo_step_idx := demo_step_idx a + 1,
               typer := begin_typing (typer a),
               launched := launched a
                 @ [\<lparr>call_text = step_text (script_steps script ! nat (demo_step_idx a)),
                     call_press_enter = step_press_enter (script_steps script ! nat (demo_step_idx a)),
                     call_delay_before = step_delay_before (script_steps script ! nat (demo_step_idx a))\<rparr>]\<rparr>,
             None))"
proof -
  have step: "type_next_step b
          = (b\<lparr>demo_step_idx := demo_step_idx b + 1,
                typer := begin_typing (typer b),
                launched := launched b
                  @ [\<lparr>call_text = step_text (script_steps script ! nat (demo_step_idx b)),
                      call_press_enter = step_press_enter (script_steps script ! nat (demo_step_idx b)),
                      call_delay_before = step_delay_before (script_steps script ! nat (demo_step_idx b))\<rparr>]\<rparr>,
             None)"
    if b: "demo_running b" "selected_script b = Some script" "texts_are_str script"
      "0 \<le> demo_step_idx b" "demo_step_idx b < int (length (script_steps script))" for b
  proof -
    let ?b1 = "b\<lparr>demo_step_idx := demo_step_idx b + 1\<rparr>"
    have "update_runner_state ?b1 = None"
      using b by (intro update_runner_state_ok [of _ script]) simp_all
    with b show ?thesis
      by (simp add: type_next_step_def list_index_def Let_def)
  qed
  have press: "on_global_key k a = a\<lparr>scheduled := scheduled a @ [(10, TypeNextStep)]\<rparr>"
    if "k = hotkey_key a" "demo_running a" "\<not> is_typing (typer a)"
    using that by (simp add: on_global_key_def)
  have both: "run_scheduled (on_global_key k a)
          = (a\<lparr>demo_step_idx := demo_step_idx a + 1,
               typer := begin_typing (typer a),
               launched := launched a
                 @ [\<lparr>call_text = step_text (script_steps script ! nat (demo_step_idx a)),
                     call_press_enter = step_press_enter (script_steps script ! nat (demo_step_idx a)),
                     call_delay_before = step_delay_before (script_steps script ! nat (demo_step_idx a))\<rparr>]\<rparr>,
             None)"
    if a: "k = hotkey_key a" "demo_running a" "\<not> is_typing (typer a)"
      "selected_script a = Some script" "texts_are_str script"
      "0 \<le> demo_step_idx a" "demo_step_idx a < int (length (script_steps script))"
      "scheduled a = []"
  proof -
    have "a\<lparr>scheduled := scheduled a\<rparr> = a" by simp
    then have same: "a\<lparr>scheduled := []\<rparr> = a" by (simp only: a(8))
    have "run_scheduled (on_global_key k a) = type_next_step (a\<lparr>scheduled := []\<rparr>)"
      using a by (simp add: on_global_key_def run_scheduled_def)
    then have "run_scheduled (on_global_key k a) = type_next_step a"
      by (simp only: same)
    also have "\<dots> = (a\<lparr>demo_step_idx := demo_step_idx a + 1,
               typer := begin_typing (typer a),
               launched := launched a
                 @ [\<lparr>call_text = step_text (script_steps script ! nat (demo_step_idx a)),
                     call_press_enter = step_press_enter (script_steps script ! nat (demo_step_idx a)),
                     call_delay_before = step_delay_before (script_steps script ! nat (demo_step_idx a))\<rparr>]\<rparr>,
             None)"
      using a by (intro step) simp_all
    finally show ?thesis .
  qed
  have typing: "on_global_key k a = a" if "is_typing (typer a)"
    using that by (simp add: on_global_key_def)
  from typing press step [of a'] both show ?thesis by blast
qed

theorem dispatch_on_trigger_witness:
  "on_global_key (F 2) (demo_app\<lparr>typer := begin_typing engine_init\<rparr>)
     = demo_app\<lparr>typer := begin_typing engine_init\<rparr>
   \<and> texts_are_str (the (selected_script demo_app))
   \<and> run_scheduled (on_global_key (F 2) demo_app)
     = (demo_app\<lparr>demo_step_idx := 2, typer := begin_typing engine_init,
              launched := [\<lparr>call_text = PStr (str ''World''), call_press_enter = PBool True,
                            call_delay_before = PFloat 0\<rparr>]\<rparr>, None)"
proof -
  let ?s = "the (selected_script demo_app)"
  have h: "F 2 = hotkey_key demo_app \<and> demo_running demo_app \<and> \<not> is_typing (typer demo_app)
        \<and> selected_script demo_app = Some ?s \<and> texts_are_str ?s
        \<and> 0 \<le> demo_step_idx demo_app \<and> demo_step_idx demo_app < int (length (script_steps ?s))
        \<and> scheduled demo_app = []"
    by (simp add: demo_app_def engine_init_def texts_are_str_def)
  have t: "is_typing (typer (demo_app\<lparr>typer := begin_typing engine_init\<rparr>))"
    by (simp add: begin_typing_def)
  from dispatch_on_trigger [of "demo_app\<lparr>typer := begin_typing engine_init\<rparr>" "F 2" demo_app ?s] t
  have 1: "on_global_key (F 2) (demo_app\<lparr>typer := begin_typing engine_init\<rparr>)
     = demo_app\<lparr>typer := begin_typing engine_init\<rparr>"
    by blast
  from dispatch_on_trigger [of demo_app "F 2" demo_app ?s] h
  have "run_scheduled (on_global_key (F 2) demo_app)
          = (demo_app\<lparr>demo_step_idx := demo_step_idx demo_app + 1,
               typer := begin_typing (typer demo_app),
               launched := launched demo_app
                 @ [\<lparr>call_text = step_text (script_steps ?s ! nat (demo_step_idx demo_app)),
                     call_press_enter = step_press_enter (script_steps ?s ! nat (demo_step_idx demo_app)),
                     call_delay_before = step_delay_before (script_steps ?s ! nat (demo_step_idx demo_app))\<rparr>]\<rparr>,
             None)"
    by blast
  then have 2: "run_scheduled (on_global_key (F 2) demo_app)
     = (demo_app\<lparr>demo_step_idx := 2, typer := begin_typing engine_init,
              launched := [\<lparr>call_text = PStr (str ''World''), call_press_enter = PBool True,
                            call_delay_before = PFloat 0\<rparr>]\<rparr>, None)"
    by (simp add: demo_app_def)
  from h have 3: "texts_are_str ?s" by blast
  from 1 3 2 show ?thesis by (intro conjI)
qed

end
